theory Spec2Isabelle
  imports Main
begin

section \<open>Strings\<close>

text \<open>
  A JavaScript string is a sequence of UTF-16 code units. Every character the program
  names lies in the Basic Multilingual Plane, so each is one code unit; a code unit is
  written as its number (U+4ECA is 20170).
\<close>

type_synonym cu = nat
type_synonym jsstring = "cu list"

text \<open>ASCII literals of the source are written as HOL strings and converted.\<close>

definition ascii :: "string \<Rightarrow> jsstring" where
  "ascii = map of_char"

text \<open>
  White space as \<^verbatim>\<open>\s\<close> and \<^verbatim>\<open>String.prototype.trim\<close> see it:
  TAB, LF, VT, FF, CR, SPACE, NBSP, U+1680, U+2000..U+200A, U+2028, U+2029, U+202F,
  U+205F, U+3000 and U+FEFF.
\<close>

definition is_ws :: "cu \<Rightarrow> bool" where
  "is_ws c \<longleftrightarrow>
     (9 \<le> c \<and> c \<le> 13) \<or> c = 32 \<or> c = 160 \<or> c = 5760 \<or> (8192 \<le> c \<and> c \<le> 8202) \<or>
     c = 8232 \<or> c = 8233 \<or> c = 8239 \<or> c = 8287 \<or> c = 12288 \<or> c = 65279"

text \<open>\<^verbatim>\<open>\d\<close> is an ASCII digit.\<close>

definition is_digit :: "cu \<Rightarrow> bool" where
  "is_digit c \<longleftrightarrow> 48 \<le> c \<and> c \<le> 57"

text \<open>\<^verbatim>\<open>s.trim()\<close>: white space removed at both ends.\<close>

fun trimEnd :: "jsstring \<Rightarrow> jsstring" where
  "trimEnd [] = []"
| "trimEnd (c # cs) = (let r = trimEnd cs in if r = [] \<and> is_ws c then [] else c # r)"

definition trim :: "jsstring \<Rightarrow> jsstring" where
  "trim s = trimEnd (dropWhile is_ws s)"

text \<open>
  \<^verbatim>\<open>s.replace(/\s+/g, '')\<close>: every maximal run of white space is deleted, which
  deletes exactly the white-space code units.
\<close>

definition removeSpaces :: "jsstring \<Rightarrow> jsstring" where
  "removeSpaces s = filter (\<lambda>c. \<not> is_ws c) s"

text \<open>
  \<^verbatim>\<open>s.replace(/\s{2,}/g, ' ')\<close>: scanning from the left, a run of two or more
  white-space code units is matched greedily (the whole run) and replaced by one SPACE;
  any other code unit is copied.
\<close>

function collapseSpaces :: "jsstring \<Rightarrow> jsstring" where
  "collapseSpaces [] = []"
| "collapseSpaces [c] = [c]"
| "collapseSpaces (c # d # cs) =
     (if is_ws c \<and> is_ws d then 32 # collapseSpaces (dropWhile is_ws cs)
      else c # collapseSpaces (d # cs))"
  by pat_completeness auto
termination
  by (relation "measure length") (auto simp: le_imp_less_Suc length_dropWhile_le less_SucI)

text \<open>
  \<^verbatim>\<open>s.toLowerCase()\<close> on the Basic Latin letters; the case mapping of other
  scripts is not modelled. The program lower-cases only to look for keywords spelled in
  a..z without the letter k. Outside Basic Latin only the Kelvin sign U+212A and the
  dotted capital I U+0130 lower-case into that range, the first to k and the second to
  an i followed by a combining dot, so neither can complete a keyword.
\<close>

definition toLowerCase :: "jsstring \<Rightarrow> jsstring" where
  "toLowerCase s = map (\<lambda>c. if 65 \<le> c \<and> c \<le> 90 then c + 32 else c) s"

section \<open>Regular expressions\<close>

text \<open>
  The vocabulary patterns of the program use literals, character classes, \<^verbatim>\<open>\d\<close>,
  alternation, sequence, the greedy optional \<^verbatim>\<open>?\<close> and the greedy bounded
  repetition \<^verbatim>\<open>{1,2}\<close>. \<open>ends r s\<close> lists, in the backtracking order of the
  ECMAScript matcher, what remains of \<open>s\<close> after each way \<open>r\<close> matches at its start:
  the head of the list is the match the engine reports.
\<close>

datatype rx =
    Lit jsstring
  | Cls "cu list"
  | Digit
  | Alt rx rx
  | Seq rx rx
  | Opt rx
  | Rep12 rx

fun ends :: "rx \<Rightarrow> jsstring \<Rightarrow> jsstring list" where
  "ends (Lit w) s = (if take (length w) s = w then [drop (length w) s] else [])"
| "ends (Cls cs) s = (case s of [] \<Rightarrow> [] | c # r \<Rightarrow> if c \<in> set cs then [r] else [])"
| "ends Digit s = (case s of [] \<Rightarrow> [] | c # r \<Rightarrow> if is_digit c then [r] else [])"
| "ends (Alt a b) s = ends a s @ ends b s"
| "ends (Seq a b) s = concat (map (ends b) (ends a s))"
| "ends (Opt a) s = ends a s @ [s]"
| "ends (Rep12 a) s = concat (map (\<lambda>r. ends a r @ [r]) (ends a s))"

text \<open>An alternation of literals, \<^verbatim>\<open>/w1|w2|...|wn/\<close>, tried left to right.\<close>

fun alts :: "jsstring list \<Rightarrow> rx" where
  "alts [] = Lit []"
| "alts [w] = Lit w"
| "alts (w # ws) = Alt (Lit w) (alts ws)"

text \<open>\<^verbatim>\<open>r.test(s)\<close>: some position of \<open>s\<close> has a match.\<close>

fun test :: "rx \<Rightarrow> jsstring \<Rightarrow> bool" where
  "test r [] = (ends r [] \<noteq> [])"
| "test r (c # cs) = (ends r (c # cs) \<noteq> [] \<or> test r cs)"

text \<open>
  \<^verbatim>\<open>s.match(r)\<close> without the g flag: the matched text of the leftmost match,
  or \<open>None\<close> for \<^verbatim>\<open>null\<close>.
\<close>

fun rmatch :: "rx \<Rightarrow> jsstring \<Rightarrow> jsstring option" where
  "rmatch r [] = (case ends r [] of [] \<Rightarrow> None | e # _ \<Rightarrow> Some [])"
| "rmatch r (c # cs) =
     (case ends r (c # cs) of
        [] \<Rightarrow> rmatch r cs
      | e # _ \<Rightarrow> Some (take (length (c # cs) - length e) (c # cs)))"

text \<open>
  \<^verbatim>\<open>s.replace(r, '')\<close> with the g flag: scanning from the left, each match is
  deleted and the scan resumes after it; where nothing matches the code unit is kept.
  An empty match deletes nothing and the scan moves one code unit on.
\<close>

function replaceAll :: "rx \<Rightarrow> jsstring \<Rightarrow> jsstring" where
  "replaceAll r [] = []"
| "replaceAll r (c # cs) =
     (case ends r (c # cs) of
        [] \<Rightarrow> c # replaceAll r cs
      | e # _ \<Rightarrow> if length e < length (c # cs) then replaceAll r e else c # replaceAll r cs)"
  by pat_completeness auto
termination
  by (relation "measure (\<lambda>(r, s). length s)") auto

section \<open>Calendar dates\<close>

text \<open>
  A \<^verbatim>\<open>Date\<close> is held by its local-time fields: full year, month (0 is January),
  day of the month, and the milliseconds since local midnight. The local time zone has
  a fixed offset from UTC (no daylight-saving transitions), so the fields and the time
  value determine each other. JavaScript numbers that are integers are \<open>int\<close>.
\<close>

record Date =
  year :: int
  month :: int
  date :: int
  msOfDay :: int

definition msPerDay :: int where
  "msPerDay = 86400000"

definition leapYear :: "int \<Rightarrow> bool" where
  "leapYear y \<longleftrightarrow> (y mod 4 = 0 \<and> y mod 100 \<noteq> 0) \<or> y mod 400 = 0"

definition daysInMonth :: "int \<Rightarrow> int \<Rightarrow> int" where
  "daysInMonth y m =
     (if m = 1 then (if leapYear y then 29 else 28)
      else if m = 3 \<or> m = 5 \<or> m = 8 \<or> m = 10 then 30 else 31)"

text \<open>
  ECMAScript's MakeDay carries a day of the month that lies outside the month into the
  neighbouring months: day 31 of a 30-day month is day 1 of the next month, day 0 is the
  last day of the previous month.
\<close>

function fixDay :: "int \<Rightarrow> int \<Rightarrow> int \<Rightarrow> int \<times> int \<times> int" where
  "fixDay y m d =
     (if d < 1 then
        (if m = 0 then fixDay (y - 1) 11 (d + daysInMonth (y - 1) 11)
         else fixDay y (m - 1) (d + daysInMonth y (m - 1)))
      else if daysInMonth y m < d then
        (if m = 11 then fixDay (y + 1) 0 (d - daysInMonth y m)
         else fixDay y (m + 1) (d - daysInMonth y m))
      else (y, m, d))"
  by pat_completeness auto
termination
  by (relation "measure (\<lambda>(y, m, d). if d < 1 then nat (- d) + 32 else nat d)")
     (auto simp: daysInMonth_def)

text \<open>
  \<^verbatim>\<open>new Date(y, m, d)\<close>: local midnight of the given day. A month of 12 or more
  carries into the year, and a year from 0 to 99 means 1900 + year.
\<close>

definition newDateYMD :: "int \<Rightarrow> int \<Rightarrow> int \<Rightarrow> Date" where
  "newDateYMD y m d =
     (let yy = (if 0 \<le> y \<and> y \<le> 99 then 1900 + y else y);
          (y', m', d') = fixDay (yy + m div 12) (m mod 12) d
      in \<lparr>year = y', month = m', date = d', msOfDay = 0\<rparr>)"

text \<open>\<^verbatim>\<open>d.setDate(n)\<close>: the day of the month is replaced, the time of day is kept.\<close>

definition setDate :: "Date \<Rightarrow> int \<Rightarrow> Date" where
  "setDate d n =
     (let (y', m', d') = fixDay (year d) (month d) n
      in \<lparr>year = y', month = m', date = d', msOfDay = msOfDay d\<rparr>)"

text \<open>\<^verbatim>\<open>a < b\<close> on dates compares the time values.\<close>

definition dateLess :: "Date \<Rightarrow> Date \<Rightarrow> bool" where
  "dateLess a b \<longleftrightarrow>
     year a < year b \<or> (year a = year b \<and>
       (month a < month b \<or> (month a = month b \<and>
         (date a < date b \<or> (date a = date b \<and> msOfDay a < msOfDay b)))))"

text \<open>
  \<^verbatim>\<open>d.getDay()\<close>: 0 is Sunday. ECMAScript computes it from the day number:
  DayFromYear, the day within the year, and 1 January 1970 being a Thursday.
\<close>

definition dayFromYear :: "int \<Rightarrow> int" where
  "dayFromYear y =
     365 * (y - 1970) + (y - 1969) div 4 - (y - 1901) div 100 + (y - 1601) div 400"

definition daysBeforeMonth :: "int \<Rightarrow> int \<Rightarrow> int" where
  "daysBeforeMonth y m =
     (if m = 0 then 0 else if m = 1 then 31
      else (if leapYear y then 1 else 0) +
        (if m = 2 then 59 else if m = 3 then 90 else if m = 4 then 120
         else if m = 5 then 151 else if m = 6 then 181 else if m = 7 then 212
         else if m = 8 then 243 else if m = 9 then 273 else if m = 10 then 304 else 334))"

definition dayWithinYear :: "int \<Rightarrow> int \<Rightarrow> int \<Rightarrow> int" where
  "dayWithinYear y m d = daysBeforeMonth y m + d - 1"

definition dayNumber :: "Date \<Rightarrow> int" where
  "dayNumber d = dayFromYear (year d) + dayWithinYear (year d) (month d) (date d)"

definition getDay :: "Date \<Rightarrow> int" where
  "getDay d = (dayNumber d + 4) mod 7"

text \<open>
  The clock: \<^verbatim>\<open>new Date()\<close> reads the wall clock. A clock gives the readings
  the program will get, numbered from 0; a read takes reading 0 and leaves the rest.
\<close>

type_synonym clock = "nat \<Rightarrow> Date"

definition newDateNow :: "clock \<Rightarrow> Date \<times> clock" where
  "newDateNow clk = (clk 0, \<lambda>n. clk (Suc n))"

text \<open>
  \<^verbatim>\<open>d.toISOString()\<close>: the UTC fields as \<^verbatim>\<open>YYYY-MM-DDTHH:mm:ss.sssZ\<close>.
  \<open>tz\<close> is the offset of local time from UTC in minutes, positive to the east
  (480 for UTC+8). Years outside 0..9999 take a sign and six digits.
\<close>

fun digitsOf :: "nat \<Rightarrow> jsstring" where
  "digitsOf n = (if n < 10 then [48 + n] else digitsOf (n div 10) @ [48 + n mod 10])"

definition padStart :: "nat \<Rightarrow> jsstring \<Rightarrow> jsstring" where
  "padStart w s = replicate (w - length s) 48 @ s"

definition toUTC :: "int \<Rightarrow> Date \<Rightarrow> Date" where
  "toUTC tz d =
     (let t = msOfDay d - tz * 60000;
          (y', m', d') = fixDay (year d) (month d) (date d + t div msPerDay)
      in \<lparr>year = y', month = m', date = d', msOfDay = t mod msPerDay\<rparr>)"

definition toISOString :: "int \<Rightarrow> Date \<Rightarrow> jsstring" where
  "toISOString tz d =
     (let u = toUTC tz d;
          t = nat (msOfDay u);
          yr = (if 0 \<le> year u \<and> year u \<le> 9999 then padStart 4 (digitsOf (nat (year u)))
                else (if year u < 0 then 45 else 43) # padStart 6 (digitsOf (nat \<bar>year u\<bar>)))
      in yr @ ascii ''-'' @ padStart 2 (digitsOf (nat (month u) + 1)) @ ascii ''-''
            @ padStart 2 (digitsOf (nat (date u))) @ ascii ''T''
            @ padStart 2 (digitsOf (t div 3600000)) @ ascii '':''
            @ padStart 2 (digitsOf (t div 60000 mod 60)) @ ascii '':''
            @ padStart 2 (digitsOf (t div 1000 mod 60)) @ ascii ''.''
            @ padStart 3 (digitsOf (t mod 1000)) @ ascii ''Z'')"

section \<open>Temporal resolver\<close>

text \<open>The characters of the temporal vocabulary, named by their Pinyin reading.\<close>

abbreviation zh_jin :: cu where "zh_jin \<equiv> 20170"  \<comment> \<open>U+4ECA, now (in today)\<close>

abbreviation zh_tian :: cu where "zh_tian \<equiv> 22825"  \<comment> \<open>U+5929, day\<close>

abbreviation zh_ri :: cu where "zh_ri \<equiv> 26085"  \<comment> \<open>U+65E5, sun, day\<close>

abbreviation zh_er_suffix :: cu where "zh_er_suffix \<equiv> 20799"  \<comment> \<open>U+513F, suffix (in today, colloquial)\<close>

abbreviation zh_ming :: cu where "zh_ming \<equiv> 26126"  \<comment> \<open>U+660E, next (in tomorrow)\<close>

abbreviation zh_hou :: cu where "zh_hou \<equiv> 21518"  \<comment> \<open>U+540E, after\<close>

abbreviation zh_da :: cu where "zh_da \<equiv> 22823"  \<comment> \<open>U+5927, big\<close>

abbreviation zh_ben :: cu where "zh_ben \<equiv> 26412"  \<comment> \<open>U+672C, this\<close>

abbreviation zh_zhou :: cu where "zh_zhou \<equiv> 21608"  \<comment> \<open>U+5468, week\<close>

abbreviation zh_zhe :: cu where "zh_zhe \<equiv> 36825"  \<comment> \<open>U+8FD9, this\<close>

abbreviation zh_xing :: cu where "zh_xing \<equiv> 26143"  \<comment> \<open>U+661F, star (in week)\<close>

abbreviation zh_qi :: cu where "zh_qi \<equiv> 26399"  \<comment> \<open>U+671F, period (in week)\<close>

abbreviation zh_xia :: cu where "zh_xia \<equiv> 19979"  \<comment> \<open>U+4E0B, next\<close>

abbreviation zh_yi :: cu where "zh_yi \<equiv> 19968"  \<comment> \<open>U+4E00, one\<close>

abbreviation zh_er :: cu where "zh_er \<equiv> 20108"  \<comment> \<open>U+4E8C, two\<close>

abbreviation zh_san :: cu where "zh_san \<equiv> 19977"  \<comment> \<open>U+4E09, three\<close>

abbreviation zh_si :: cu where "zh_si \<equiv> 22235"  \<comment> \<open>U+56DB, four\<close>

abbreviation zh_wu :: cu where "zh_wu \<equiv> 20116"  \<comment> \<open>U+4E94, five\<close>

abbreviation zh_liu :: cu where "zh_liu \<equiv> 20845"  \<comment> \<open>U+516D, six\<close>

abbreviation zh_yue :: cu where "zh_yue \<equiv> 26376"  \<comment> \<open>U+6708, month\<close>

abbreviation zh_hao :: cu where "zh_hao \<equiv> 21495"  \<comment> \<open>U+53F7, number (day of the month)\<close>

text \<open>
  The vocabulary: \<open>da hou tian\<close> is "in three days", \<open>hou tian\<close> "the day after
  tomorrow", \<open>ming tian\<close> and \<open>ming ri\<close> "tomorrow", \<open>jin tian\<close>, \<open>jin ri\<close> and
  \<open>jin er\<close> "today"; \<open>hao\<close> and \<open>ri\<close> after a number name a day of the month and
  \<open>yue\<close> a month; \<open>xia zhou\<close> and \<open>xia xing qi\<close> are "next week", \<open>zhe zhou\<close>,
  \<open>ben zhou\<close> and \<open>ben xing qi\<close> "this week", \<open>zhou\<close> and \<open>xing qi\<close> "week";
  \<open>yi\<close> to \<open>liu\<close> are Monday to Saturday, \<open>tian\<close> and \<open>ri\<close> Sunday.
\<close>

definition reDaHouTian :: rx where
  "reDaHouTian = Lit [zh_da, zh_hou, zh_tian]"

definition reHouTian :: rx where
  "reHouTian = Lit [zh_hou, zh_tian]"

definition reTomorrow :: rx where
  "reTomorrow = Alt (Lit [zh_ming, zh_tian]) (Lit [zh_ming, zh_ri])"

definition reToday :: rx where
  "reToday = Alt (Lit [zh_jin, zh_tian]) (Alt (Lit [zh_jin, zh_ri]) (Lit [zh_jin, zh_er_suffix]))"

text \<open>\<^verbatim>\<open>/(\d{1,2})[HR]/\<close> with H = \<open>hao\<close> and R = \<open>ri\<close>.\<close>

definition reDay :: rx where
  "reDay = Seq (Rep12 Digit) (Cls [zh_hao, zh_ri])"

text \<open>The seven prefixes of the weekday pattern, in the order of the source.\<close>

definition weekPrefixes :: "jsstring list" where
  "weekPrefixes = [[zh_xia, zh_zhou],
     [zh_xia, zh_xing, zh_qi],
     [zh_zhe, zh_zhou],
     [zh_ben, zh_zhou],
     [zh_ben, zh_xing, zh_qi],
     [zh_zhou],
     [zh_xing, zh_qi]]"

definition weekdayChars :: "cu list" where
  "weekdayChars = [zh_yi, zh_er, zh_san, zh_si, zh_wu, zh_liu, zh_tian, zh_ri]"

definition reWeek :: rx where
  "reWeek = Seq (alts weekPrefixes) (Cls weekdayChars)"

definition reNextWeek :: rx where
  "reNextWeek = Alt (Lit [zh_xia, zh_zhou]) (Lit [zh_xia, zh_xing, zh_qi])"

text \<open>The table \<^verbatim>\<open>map\<close> from the weekday character to its ordinal, Monday being 1.\<close>

definition weekdayMap :: "(cu \<times> int) list" where
  "weekdayMap = [(zh_yi, 1), (zh_er, 2), (zh_san, 3), (zh_si, 4), (zh_wu, 5), (zh_liu, 6),
     (zh_ri, 7), (zh_tian, 7)]"

text \<open>\<^verbatim>\<open>parseInt(s, 10)\<close> on a string of digits.\<close>

definition parseInt :: "jsstring \<Rightarrow> int" where
  "parseInt s = foldl (\<lambda>a c. 10 * a + (int c - 48)) 0 s"

text \<open>
  Both patterns with capture groups end in a class that takes exactly one code unit, so
  of a matched text \<open>m\<close> the first group is \<open>butlast m\<close> and, in the weekday
  pattern, the second group is \<open>last m\<close>.

  \<^verbatim>\<open>getScheduledDateFromText\<close> reads the clock itself; the result is the date
  (\<open>None\<close> for \<^verbatim>\<open>null\<close>) and the clock after the read.
\<close>

definition getScheduledDateFromText :: "jsstring \<Rightarrow> clock \<Rightarrow> Date option \<times> clock" where
  "getScheduledDateFromText text clk =
     (let (now, clk') = newDateNow clk;
          content = removeSpaces text
      in
      if test reDaHouTian content then (Some (setDate now (date now + 3)), clk')
      else if test reHouTian content then (Some (setDate now (date now + 2)), clk')
      else if test reTomorrow content then (Some (setDate now (date now + 1)), clk')
      else if test reToday content then (Some now, clk')
      else
        let dayMatch = rmatch reDay content;
            day = (case dayMatch of None \<Rightarrow> 0 | Some m \<Rightarrow> parseInt (butlast m))
        in
        if dayMatch \<noteq> None \<and> day \<ge> 1 \<and> day \<le> 31 then
          (let d = newDateYMD (year now) (month now) day in
           if dateLess d (newDateYMD (year now) (month now) (date now))
           then (Some (newDateYMD (year now) (month now + 1) day), clk')
           else (Some d, clk'))
        else
          (case rmatch reWeek content of
             None \<Rightarrow> (None, clk')
           | Some m \<Rightarrow>
               (let when = butlast m; dayChar = last m in
                case map_of weekdayMap dayChar of
                  None \<Rightarrow> (None, clk')
                | Some targetWeekday \<Rightarrow>
                    if targetWeekday = 0 then (None, clk')
                    else
                      let currentWeekday = (if getDay now = 0 then 7 else getDay now);
                          diff = targetWeekday - currentWeekday;
                          diff = (if diff < 0 then diff + 7 else diff);
                          diff = (if test reNextWeek when then diff + 7 else diff)
                      in (Some (setDate now (date now + diff)), clk'))))"

section \<open>Text sanitizer\<close>

text \<open>
  The ten patterns of \<^verbatim>\<open>stripDateWords\<close>, in the order of the source: today,
  tomorrow, the day after tomorrow, in three days, the week prefixes, the two weekday
  forms, month with day, month alone, day alone.
\<close>

definition datePatterns :: "rx list" where
  "datePatterns =
     [Alt (Lit [zh_jin, zh_tian]) (Alt (Lit [zh_jin, zh_ri]) (Lit [zh_jin, zh_er_suffix])),
      Alt (Lit [zh_ming, zh_tian]) (Lit [zh_ming, zh_ri]),
      Lit [zh_hou, zh_tian],
      Lit [zh_da, zh_hou, zh_tian],
      alts [[zh_ben, zh_zhou], [zh_zhe, zh_zhou], [zh_ben, zh_xing, zh_qi],
            [zh_xia, zh_zhou], [zh_xia, zh_xing, zh_qi]],
      Seq (Lit [zh_zhou])
          (Cls [zh_yi, zh_er, zh_san, zh_si, zh_wu, zh_liu, zh_tian, zh_ri]),
      Seq (Lit [zh_xing, zh_qi])
          (Cls [zh_yi, zh_er, zh_san, zh_si, zh_wu, zh_liu, zh_tian, zh_ri]),
      Seq (Rep12 Digit) (Seq (Lit [zh_yue]) (Seq (Rep12 Digit) (Opt (Cls [zh_hao, zh_ri])))),
      Seq (Rep12 Digit) (Lit [zh_yue]),
      Seq (Rep12 Digit) (Cls [zh_hao, zh_ri])]"

definition stripDateWords :: "jsstring \<Rightarrow> jsstring" where
  "stripDateWords text =
     (let result = foldl (\<lambda>result p. replaceAll p result) text datePatterns;
          result = collapseSpaces result
      in trim result)"

section \<open>Classifier\<close>

text \<open>
  \<^verbatim>\<open>TaskTag\<close> is a union of four string literals; the constructors carry the
  identifiers the program gives them in \<^verbatim>\<open>DEFAULT_TAGS\<close>: \<open>Life\<close> is the
  personal-life and shopping label, \<open>Work\<close> the primary-job label, \<open>Ramen\<close> the
  ramen-shop venture label and \<open>WebDev\<close> the web-development learning label.
\<close>

datatype TaskTag = Life | Work | Ramen | WebDev

text \<open>
  The four keyword families, each in the order of its pattern. In words:
  \<^item> venture: ramen (la mian), soup base, stock, noodles, shop, site selection (xuan zhi), rent, renovation, store, opening a shop, start-up, finance, cost, profit;
  \<^item> learning: react, javascript, typescript, front end, css, html, node, web, programming, code, tutorial, study, vite;
  \<^item> job: report, e-mail, colleague, meeting, client, project, schedule, requirement, launch, test, bug, OKR, weekly report, work;
  \<^item> life: buy (mai, U+4E70), purchase, shopping, supermarket, food market, payment, housework, sweeping, tidying, laundry, cooking, eating, dinner, lunch, breakfast, takeaway, appointment.
\<close>

definition ramenWords :: "jsstring list" where
  "ramenWords =
     [[25289, 38754], [27748, 24213], [39640, 27748], [38754, 26465], [24215, 38138],
      [36873, 22336], [31199, 37329], [35013, 20462], [38376, 24215], [24320, 24215],
      [21019, 19994], [36130, 21153], [25104, 26412], [21033, 28070]]"

definition webWords :: "jsstring list" where
  "webWords =
     [ascii ''react'', ascii ''javascript'', ascii ''typescript'', [21069, 31471],
      ascii ''css'', ascii ''html'', ascii ''node'', ascii ''web'', [32534, 31243],
      [20195, 30721], [25945, 31243], [23398, 20064], ascii ''vite'']"

definition workWords :: "jsstring list" where
  "workWords =
     [[25253, 21578], [37038, 20214], [21516, 20107], [20250, 35758], [23458, 25143],
      [39033, 30446], [25490, 26399], [38656, 27714], [19978, 32447], [27979, 35797],
      ascii ''bug'', ascii ''OKR'', [21608, 25253], [24037, 20316]]"

definition lifeWords :: "jsstring list" where
  "lifeWords =
     [[20080], [36141, 20080], [36141, 29289], [36229, 24066], [33756, 24066, 22330],
      [25903, 20184], [23478, 21153], [25171, 25195], [25972, 29702], [27927, 34915],
      [20570, 39277], [21507, 39277], [26202, 39184], [21320, 39184], [26089, 39184],
      [22806, 21334], [39044, 32422]]"

definition classify :: "jsstring \<Rightarrow> TaskTag" where
  "classify content =
     (let lower = toLowerCase content;
          isRamen = test (alts ramenWords) content
      in if isRamen then Ramen
      else
        let isWeb = test (alts webWords) (lower @ content)
        in if isWeb then WebDev
        else
          let isWork = test (alts workWords) content
          in if isWork then Work
          else
            let isLife = test (alts lifeWords) content
            in if isLife then Life
            else Work)"

section \<open>Derivation\<close>

datatype TaskType = todo | idea

record Task =
  id' :: jsstring
  type' :: TaskType
  text' :: jsstring
  tag :: "TaskTag option"
  completed :: "bool option"
  createdAt :: jsstring

text \<open>
  \<^verbatim>\<open>s.split(/[,...]/)\<close>: the pieces between the separators, empty pieces included;
  a string without a separator is its own single piece.
\<close>

fun split :: "(cu \<Rightarrow> bool) \<Rightarrow> jsstring \<Rightarrow> jsstring list" where
  "split sep [] = [[]]"
| "split sep (c # cs) =
     (if sep c then [] # split sep cs
      else (case split sep cs of [] \<Rightarrow> [[c]] | p # ps \<Rightarrow> (c # p) # ps))"

text \<open>
  The separators: comma, fullwidth comma U+FF0C, ideographic full stop U+3002, fullwidth
  semicolon U+FF1B, semicolon, ideographic comma U+3001.
\<close>

definition isSeparator :: "cu \<Rightarrow> bool" where
  "isSeparator c \<longleftrightarrow> c \<in> set [44, 65292, 12290, 65307, 59, 12289]"

text \<open>\<^verbatim>\<open>.filter(Boolean)\<close> on strings keeps the non-empty ones.\<close>

definition filterBoolean :: "jsstring list \<Rightarrow> jsstring list" where
  "filterBoolean xs = filter (\<lambda>s. s \<noteq> []) xs"

text \<open>
  \<^verbatim>\<open>processTranscriptToTasks\<close> reads the clock, then calls the resolver, which
  reads it again. \<open>tz\<close> is the offset of the local time zone, which
  \<^verbatim>\<open>toISOString\<close> needs.
\<close>

definition processTranscriptToTasks :: "int \<Rightarrow> jsstring \<Rightarrow> clock \<Rightarrow> Task list \<times> clock" where
  "processTranscriptToTasks tz text clk =
     (let (now, clk1) = newDateNow clk;
          (scheduled, clk2) = getScheduledDateFromText text clk1;
          base = (case scheduled of None \<Rightarrow> now | Some d \<Rightarrow> d);
          baseISO = toISOString tz base;
          rawItems = filterBoolean (map trim (split isSeparator text));
          cleanedItems = filterBoolean (map trim (map stripDateWords rawItems))
      in
      if length cleanedItems = 0 then
        ([\<lparr>id' = baseISO @ ascii ''-0'',
           type' = todo,
           text' = (if trim (stripDateWords text) \<noteq> [] then trim (stripDateWords text)
                    else trim text),
           tag = Some Work,
           completed = Some False,
           createdAt = baseISO\<rparr>], clk2)
      else
        (map (\<lambda>(index, item).
               \<lparr>id' = baseISO @ ascii ''-'' @ digitsOf index,
                type' = todo,
                text' = item,
                tag = Some (classify item),
                completed = Some False,
                createdAt = baseISO\<rparr>)
           (enumerate 0 cleanedItems), clk2))"

section \<open>Notions used in the statements\<close>

text \<open>
  A well-formed date: the month is 0 to 11, the day exists in that month, the time of day
  lies within the day. Every reading of the clock is one.
\<close>

definition validDate :: "Date \<Rightarrow> bool" where
  "validDate d \<longleftrightarrow>
     0 \<le> month d \<and> month d < 12 \<and> 1 \<le> date d \<and> date d \<le> daysInMonth (year d) (month d)
     \<and> 0 \<le> msOfDay d \<and> msOfDay d < msPerDay"

text \<open>
  What "\<open>k\<close> days after \<open>d\<close>" means, said with the calendar alone and without
  \<open>fixDay\<close>: the same time of day, \<open>k\<close> steps to the following calendar day.
\<close>

definition nextDay :: "Date \<Rightarrow> Date" where
  "nextDay d =
     (if date d < daysInMonth (year d) (month d) then d\<lparr>date := date d + 1\<rparr>
      else if month d = 11 then d\<lparr>year := year d + 1, month := 0, date := 1\<rparr>
      else d\<lparr>month := month d + 1, date := 1\<rparr>)"

definition plusDays :: "nat \<Rightarrow> Date \<Rightarrow> Date" where
  "plusDays k d = (nextDay ^^ k) d"

text \<open>The same step on a triple of year, month and day, as \<open>fixDay\<close> returns it.\<close>

definition nextT :: "int \<times> int \<times> int \<Rightarrow> int \<times> int \<times> int" where
  "nextT t = (case t of (y, m, d) \<Rightarrow>
     if d < daysInMonth y m then (y, m, d + 1)
     else if m = 11 then (y + 1, 0, 1) else (y, m + 1, 1))"

text \<open>
  A clock given by its first readings: \<open>readings d ds\<close> delivers the elements of
  \<open>ds\<close> in order and \<open>d\<close> ever after.
\<close>

fun readings :: "Date \<Rightarrow> Date list \<Rightarrow> clock" where
  "readings d [] n = d"
| "readings d (x # xs) 0 = x"
| "readings d (x # xs) (Suc n) = readings d xs n"

text \<open>No two neighbouring code units of the string are both white space.\<close>

fun noRun :: "jsstring \<Rightarrow> bool" where
  "noRun (a # b # r) = (\<not> (is_ws a \<and> is_ws b) \<and> noRun (b # r))"
| "noRun _ = True"

text \<open>The calendar date of a \<^verbatim>\<open>Date\<close>: year, month and day, without the time of day.\<close>

definition calendarDate :: "Date \<Rightarrow> int \<times> int \<times> int" where
  "calendarDate d = (year d, month d, date d)"

text \<open>Wednesday 20 March 2024, 10:30:00.000 local time.\<close>

definition sampleNow :: Date where
  "sampleNow = \<lparr>year = 2024, month = 2, date = 20, msOfDay = 37800000\<rparr>"

section \<open>Evaluation and basic facts\<close>

text \<open>
  \<open>fixDay\<close> and \<open>digitsOf\<close> recurse under a condition on their arguments; their
  equations are unfolded on demand only.
\<close>

declare fixDay.simps [simp del]
declare digitsOf.simps [simp del]

lemmas eval_defs = is_ws_def is_digit_def trim_def removeSpaces_def toLowerCase_def ascii_def
  ramenWords_def webWords_def workWords_def lifeWords_def classify_def Let_def

lemmas strip_defs = stripDateWords_def datePatterns_def is_ws_def is_digit_def trim_def Let_def

lemmas re_defs = reDaHouTian_def reHouTian_def reTomorrow_def reToday_def reDay_def reWeek_def
  reNextWeek_def weekPrefixes_def weekdayChars_def weekdayMap_def parseInt_def removeSpaces_def
  is_ws_def is_digit_def

lemmas cal_defs = daysInMonth_def leapYear_def fixDay.simps

lemmas weekday_defs = getDay_def dayNumber_def dayFromYear_def dayWithinYear_def
  daysBeforeMonth_def leapYear_def

lemma replicate_small:
  "replicate 1 x = [x]" "replicate 2 x = [x, x]" "replicate 3 x = [x, x, x]"
  "replicate 4 x = [x, x, x, x]" "replicate 5 x = [x, x, x, x, x]"
  by (simp_all add: numeral_2_eq_2 numeral_3_eq_3 eval_nat_numeral)

lemmas iso_defs = toISOString_def toUTC_def msPerDay_def padStart_def digitsOf.simps ascii_def
  replicate_small

lemma test_here: "ends r s \<noteq> [] \<Longrightarrow> test r s"
  by (cases s) auto

lemma test_append_left: "test r s \<Longrightarrow> test r (a @ s)"
  by (induction a) auto

lemma test_Lit_contains: "test (Lit w) (a @ w @ b)"
  by (rule test_append_left, rule test_here) simp

text \<open>A literal matches somewhere exactly when the string contains it.\<close>

lemma test_Lit_iff: "test (Lit w) s \<longleftrightarrow> (\<exists>a b. s = a @ w @ b)"
proof
  show "test (Lit w) s \<Longrightarrow> \<exists>a b. s = a @ w @ b"
  proof (induction s)
    case Nil
    then show ?case by (auto split: if_splits)
  next
    case (Cons c cs)
    show ?case
    proof (cases "ends (Lit w) (c # cs) \<noteq> []")
      case True
      then have "take (length w) (c # cs) = w" by (simp split: if_splits)
      then have "c # cs = [] @ w @ drop (length w) (c # cs)"
        by (metis append_Nil append_take_drop_id)
      then show ?thesis by blast
    next
      case False
      with Cons.prems have "test (Lit w) cs" by simp
      with Cons.IH obtain a b where "cs = a @ w @ b" by blast
      then have "c # cs = (c # a) @ w @ b" by simp
      then show ?thesis by blast
    qed
  qed
next
  show "\<exists>a b. s = a @ w @ b \<Longrightarrow> test (Lit w) s"
    using test_Lit_contains by blast
qed

lemma test_Alt: "test (Alt a b) s \<longleftrightarrow> test a s \<or> test b s"
  by (induction s) auto

lemma test_alts: "ws \<noteq> [] \<Longrightarrow> test (alts ws) s \<longleftrightarrow> (\<exists>w \<in> set ws. test (Lit w) s)"
proof (induction ws rule: alts.induct)
  case 1
  then show ?case by simp
next
  case (2 w)
  then show ?case by simp
next
  case (3 w v ws)
  then show ?case by (simp add: test_Alt del: alts.simps(3)) (simp add: test_Alt)
qed

lemma test_alts_contains:
  assumes "w \<in> set ws"
  shows "test (alts ws) (a @ w @ b)"
proof -
  from assms have "ws \<noteq> []" by auto
  moreover have "\<exists>v \<in> set ws. test (Lit v) (a @ w @ b)"
    using assms test_Lit_contains by blast
  ultimately show ?thesis using test_alts [of ws "a @ w @ b"] by blast
qed

lemma test_alts_iff:
  "ws \<noteq> [] \<Longrightarrow> test (alts ws) s \<longleftrightarrow> (\<exists>w \<in> set ws. \<exists>a b. s = a @ w @ b)"
  by (simp add: test_alts test_Lit_iff)

section \<open>White space\<close>

lemma trimEnd_idem: "trimEnd (trimEnd s) = trimEnd s"
  by (induction s) (auto simp: Let_def)

lemma hd_trimEnd: "trimEnd s \<noteq> [] \<Longrightarrow> hd (trimEnd s) = hd s"
  by (cases s) (auto simp: Let_def split: if_splits)

lemma dropWhile_head: "s = [] \<or> \<not> P (hd s) \<Longrightarrow> dropWhile P s = s"
  by (cases s) auto

lemma hd_dropWhile_not: "dropWhile P s = [] \<or> \<not> P (hd (dropWhile P s))"
  using hd_dropWhile by blast

lemma trim_head: "trim s = [] \<or> \<not> is_ws (hd (trim s))"
proof (cases "trim s = []")
  case True then show ?thesis by simp
next
  case False
  then have ne: "trimEnd (dropWhile is_ws s) \<noteq> []" by (simp add: trim_def)
  then have "dropWhile is_ws s \<noteq> []" by (cases "dropWhile is_ws s") simp_all
  with hd_dropWhile_not [of is_ws s] have "\<not> is_ws (hd (dropWhile is_ws s))" by blast
  with hd_trimEnd [OF ne] show ?thesis by (simp add: trim_def)
qed

lemma trim_idem: "trim (trim s) = trim s"
proof -
  have "dropWhile is_ws (trim s) = trim s"
    using trim_head [of s] by (intro dropWhile_head) simp
  then have "trim (trim s) = trimEnd (trim s)" by (simp add: trim_def)
  also have "\<dots> = trim s" by (simp add: trim_def trimEnd_idem)
  finally show ?thesis .
qed

lemma trim_stripDateWords: "trim (stripDateWords s) = stripDateWords s"
  by (simp add: stripDateWords_def Let_def trim_idem)

lemma enumerate_Nil_iff: "enumerate n xs = [] \<longleftrightarrow> xs = []"
  by (cases xs) auto

lemma replaceAll_no_match: "\<not> test r s \<Longrightarrow> replaceAll r s = s"
  by (induction s) auto

lemma foldl_replaceAll_no_match:
  "\<forall>p \<in> set ps. \<not> test p s \<Longrightarrow> foldl (\<lambda>result p. replaceAll p result) s ps = s"
  by (induction ps) (auto simp: replaceAll_no_match)

lemma noRun_Cons: "noRun (a # r) \<longleftrightarrow> (r = [] \<or> \<not> (is_ws a \<and> is_ws (hd r))) \<and> noRun r"
  by (cases r) auto

lemma collapseSpaces_Nil_iff: "collapseSpaces s = [] \<longleftrightarrow> s = []"
  by (induction s rule: collapseSpaces.induct) auto

lemma collapseSpaces_hd:
  "s \<noteq> [] \<Longrightarrow> \<not> is_ws (hd s) \<Longrightarrow> hd (collapseSpaces s) = hd s"
  by (induction s rule: collapseSpaces.induct) auto

lemma collapseSpaces_noRun: "noRun (collapseSpaces s)"
proof (induction s rule: collapseSpaces.induct)
  case 1
  then show ?case by simp
next
  case (2 c)
  then show ?case by simp
next
  case (3 c d cs)
  show ?case
  proof (cases "is_ws c \<and> is_ws d")
    case True
    let ?t = "dropWhile is_ws cs"
    from True 3 have ih: "noRun (collapseSpaces ?t)" by simp
    have "collapseSpaces ?t = [] \<or> \<not> is_ws (hd (collapseSpaces ?t))"
    proof (cases "?t = []")
      case True
      then have "collapseSpaces ?t = []" by (simp only: collapseSpaces.simps)
      then show ?thesis ..
    next
      case False
      with hd_dropWhile [of is_ws cs] have "\<not> is_ws (hd ?t)" by blast
      with False show ?thesis by (simp add: collapseSpaces_hd)
    qed
    with ih True show ?thesis by (simp add: noRun_Cons)
  next
    case False
    with 3 have ih: "noRun (collapseSpaces (d # cs))" by simp
    have "\<not> (is_ws c \<and> is_ws (hd (collapseSpaces (d # cs))))"
    proof
      assume a: "is_ws c \<and> is_ws (hd (collapseSpaces (d # cs)))"
      with False have "\<not> is_ws d" by simp
      then have "hd (collapseSpaces (d # cs)) = d" using collapseSpaces_hd [of "d # cs"] by simp
      with a \<open>\<not> is_ws d\<close> show False by simp
    qed
    moreover from False have "collapseSpaces (c # d # cs) = c # collapseSpaces (d # cs)"
      by auto
    ultimately show ?thesis using ih by (simp only: noRun_Cons) blast
  qed
qed

lemma collapseSpaces_id: "noRun s \<Longrightarrow> collapseSpaces s = s"
  by (induction s rule: collapseSpaces.induct) auto

lemma noRun_dropWhile: "noRun s \<Longrightarrow> noRun (dropWhile P s)"
  by (induction s rule: noRun.induct) auto

lemma noRun_trimEnd: "noRun s \<Longrightarrow> noRun (trimEnd s)"
proof (induction s)
  case Nil
  then show ?case by simp
next
  case (Cons c s)
  then have ih: "noRun (trimEnd s)" by (simp add: noRun_Cons)
  show ?case
  proof (cases "trimEnd s = []")
    case True
    then show ?thesis by (simp add: Let_def)
  next
    case False
    with hd_trimEnd have "hd (trimEnd s) = hd s" by simp
    moreover from False have "s \<noteq> []" by auto
    ultimately show ?thesis using Cons.prems ih False by (simp add: noRun_Cons Let_def)
  qed
qed

lemma noRun_trim: "noRun s \<Longrightarrow> noRun (trim s)"
  by (simp add: trim_def noRun_trimEnd noRun_dropWhile)

lemma noRun_stripDateWords: "noRun (stripDateWords x)"
  by (simp add: stripDateWords_def Let_def noRun_trim collapseSpaces_noRun)

lemma stripDateWords_fixed:
  assumes "\<forall>p \<in> set datePatterns. \<not> test p y" and "noRun y" and "trim y = y"
  shows "stripDateWords y = y"
  using assms by (simp add: stripDateWords_def Let_def foldl_replaceAll_no_match collapseSpaces_id)

section \<open>The calendar\<close>

lemma daysInMonth_bounds: "28 \<le> daysInMonth y m \<and> daysInMonth y m \<le> 31"
  by (simp add: daysInMonth_def)

lemma fixDay_valid: "1 \<le> d \<Longrightarrow> d \<le> daysInMonth y m \<Longrightarrow> fixDay y m d = (y, m, d)"
  by (simp add: fixDay.simps)

lemma fixDay_over:
  "daysInMonth y m < d \<Longrightarrow>
   fixDay y m d = (if m = 11 then fixDay (y + 1) 0 (d - daysInMonth y m)
                   else fixDay y (m + 1) (d - daysInMonth y m))"
  using daysInMonth_bounds [of y m] by (subst fixDay.simps) simp

lemma fixDay_succ:
  "1 \<le> d \<Longrightarrow> fixDay y m (d + 1) = nextT (fixDay y m d)"
proof (induction y m d rule: fixDay.induct)
  case (1 y m d)
  show ?case
  proof (cases "daysInMonth y m < d")
    case True
    then have over: "daysInMonth y m < d + 1" by simp
    from True have pos: "1 \<le> d - daysInMonth y m" by simp
    have not_lt: "\<not> d < 1" using 1(5) by simp
    show ?thesis
    proof (cases "m = 11")
      case True
      have "fixDay (y + 1) 0 (d - daysInMonth y m + 1) = nextT (fixDay (y + 1) 0 (d - daysInMonth y m))"
        using "1.IH"(3) [OF not_lt \<open>daysInMonth y m < d\<close> True pos] .
      moreover have "fixDay y m (d + 1) = fixDay (y + 1) 0 (d + 1 - daysInMonth y m)"
        using fixDay_over [OF over] True by simp
      moreover have "fixDay y m d = fixDay (y + 1) 0 (d - daysInMonth y m)"
        using fixDay_over [OF \<open>daysInMonth y m < d\<close>] True by simp
      moreover have "d + 1 - daysInMonth y m = d - daysInMonth y m + 1" by simp
      ultimately show ?thesis by simp
    next
      case False
      have "fixDay y (m + 1) (d - daysInMonth y m + 1) = nextT (fixDay y (m + 1) (d - daysInMonth y m))"
        using "1.IH"(4) [OF not_lt \<open>daysInMonth y m < d\<close> False pos] .
      moreover have "fixDay y m (d + 1) = fixDay y (m + 1) (d + 1 - daysInMonth y m)"
        using fixDay_over [OF over] False by simp
      moreover have "fixDay y m d = fixDay y (m + 1) (d - daysInMonth y m)"
        using fixDay_over [OF \<open>daysInMonth y m < d\<close>] False by simp
      moreover have "d + 1 - daysInMonth y m = d - daysInMonth y m + 1" by simp
      ultimately show ?thesis by simp
    qed
  next
    case False
    with 1(5) have v: "fixDay y m d = (y, m, d)" by (simp add: fixDay_valid)
    show ?thesis
    proof (cases "d < daysInMonth y m")
      case True
      with 1(5) have "fixDay y m (d + 1) = (y, m, d + 1)" by (simp add: fixDay_valid)
      with v True show ?thesis by (simp add: nextT_def)
    next
      case False
      with \<open>\<not> daysInMonth y m < d\<close> have eq: "d = daysInMonth y m" by simp
      have one: "\<And>y' m'. fixDay y' m' 1 = (y', m', 1)"
        using daysInMonth_bounds by (intro fixDay_valid) (simp, smt (verit))
      have "daysInMonth y m < d + 1" using eq by simp
      from fixDay_over [OF this] eq
      have "fixDay y m (d + 1) = (if m = 11 then (y + 1, 0, 1) else (y, m + 1, 1))"
        by (simp add: one)
      with v eq show ?thesis by (simp add: nextT_def)
    qed
  qed
qed

lemma setDate_succ:
  "1 \<le> n \<Longrightarrow> setDate d (n + 1) = nextDay (setDate d n)"
  using fixDay_succ [of n "year d" "month d"]
  by (cases "fixDay (year d) (month d) n")
     (auto simp: setDate_def nextDay_def nextT_def split: if_splits)

lemma setDate_same: "validDate d \<Longrightarrow> setDate d (date d) = d"
  by (simp add: setDate_def validDate_def fixDay_valid)

lemma setDate_plusDays:
  assumes "validDate d"
  shows "setDate d (date d + int k) = plusDays k d"
proof (induction k)
  case 0
  with assms show ?case by (simp add: plusDays_def setDate_same)
next
  case (Suc k)
  from assms have "1 \<le> date d + int k" by (simp add: validDate_def)
  from setDate_succ [OF this, of d] Suc show ?case
    by (simp add: plusDays_def algebra_simps)
qed

lemma msOfDay_nextDay: "msOfDay (nextDay d) = msOfDay d"
  by (simp add: nextDay_def)

lemma msOfDay_plusDays: "msOfDay (plusDays k d) = msOfDay d"
  by (induction k) (simp_all add: plusDays_def msOfDay_nextDay)

lemma validDate_nextDay: "validDate d \<Longrightarrow> validDate (nextDay d)"
  using daysInMonth_bounds [of "year d" "month d + 1"] daysInMonth_bounds [of "year d + 1" 0]
  by (auto simp: validDate_def nextDay_def)

text \<open>
  The day number and the weekday agree with the calendar: the following day has the next
  day number, so the weekday advances by one and returns after seven days.
\<close>

lemma div_succ:
  assumes "0 < (k::int)"
  shows "(a + 1) div k = a div k + (if (a + 1) mod k = 0 then 1 else 0)"
proof -
  define q where "q = a div k"
  define r where "r = a mod k"
  have a: "a = k * q + r" by (simp add: q_def r_def)
  have r: "0 \<le> r" "r < k" using assms by (simp_all add: r_def)
  show ?thesis
  proof (cases "r + 1 < k")
    case True
    have e: "a + 1 = k * q + (r + 1)" using a by simp
    from r have p: "0 \<le> r + 1" by simp
    from int_div_pos_eq [OF e p True] int_mod_pos_eq [OF e p True] r
    show ?thesis by (simp add: q_def)
  next
    case False
    with r have "r + 1 = k" by simp
    with a have e: "a + 1 = k * (q + 1) + 0" by (simp add: algebra_simps)
    from int_div_pos_eq [OF e _ assms] int_mod_pos_eq [OF e _ assms]
    show ?thesis by (simp add: q_def)
  qed
qed

lemma dayFromYear_succ:
  "dayFromYear (y + 1) = dayFromYear y + (if leapYear y then 366 else 365)"
proof -
  have m4: "(y - 1969 + 1) mod 4 = 0 \<longleftrightarrow> y mod 4 = 0"
  proof -
    have "y - 1969 + 1 = y - 4 * 492" by simp
    then show ?thesis by (simp only: mod_eq_0_iff_dvd dvd_diff_left_iff dvd_triv_left)
  qed
  have m100: "(y - 1901 + 1) mod 100 = 0 \<longleftrightarrow> y mod 100 = 0"
  proof -
    have "y - 1901 + 1 = y - 100 * 19" by simp
    then show ?thesis by (simp only: mod_eq_0_iff_dvd dvd_diff_left_iff dvd_triv_left)
  qed
  have m400: "(y - 1601 + 1) mod 400 = 0 \<longleftrightarrow> y mod 400 = 0"
  proof -
    have "y - 1601 + 1 = y - 400 * 4" by simp
    then show ?thesis by (simp only: mod_eq_0_iff_dvd dvd_diff_left_iff dvd_triv_left)
  qed
  have a: "(y - 1969 + 1) div 4 = (y - 1969) div 4 + (if y mod 4 = 0 then 1 else 0)"
    using div_succ [of 4 "y - 1969"] m4 by simp
  have b: "(y - 1901 + 1) div 100 = (y - 1901) div 100 + (if y mod 100 = 0 then 1 else 0)"
    using div_succ [of 100 "y - 1901"] m100 by simp
  have c: "(y - 1601 + 1) div 400 = (y - 1601) div 400 + (if y mod 400 = 0 then 1 else 0)"
    using div_succ [of 400 "y - 1601"] m400 by simp
  have d: "y mod 100 = 0" if "y mod 400 = 0"
  proof -
    from that have "400 dvd y" by (simp add: mod_eq_0_iff_dvd)
    moreover have "(100::int) dvd 400" by simp
    ultimately have "100 dvd y" by (rule dvd_trans [rotated])
    then show ?thesis by (simp add: mod_eq_0_iff_dvd)
  qed
  have e: "y mod 4 = 0" if "y mod 100 = 0"
  proof -
    from that have "100 dvd y" by (simp add: mod_eq_0_iff_dvd)
    moreover have "(4::int) dvd 100" by simp
    ultimately have "4 dvd y" by (rule dvd_trans [rotated])
    then show ?thesis by (simp add: mod_eq_0_iff_dvd)
  qed
  have s: "y + 1 - 1969 = y - 1969 + 1" "y + 1 - 1901 = y - 1901 + 1"
    "y + 1 - 1601 = y - 1601 + 1" by simp_all
  have "dayFromYear (y + 1) =
      365 * (y + 1 - 1970) + (y - 1969 + 1) div 4 - (y - 1901 + 1) div 100
        + (y - 1601 + 1) div 400"
    unfolding dayFromYear_def s ..
  also have "\<dots> = dayFromYear y + 365 + (if y mod 4 = 0 then 1 else 0)
      - (if y mod 100 = 0 then 1 else 0) + (if y mod 400 = 0 then 1 else 0)"
    unfolding a b c dayFromYear_def by (simp add: algebra_simps)
  also have "\<dots> = dayFromYear y + (if leapYear y then 366 else 365)"
    using d e unfolding leapYear_def
    by (cases "y mod 400 = 0"; cases "y mod 100 = 0"; cases "y mod 4 = 0") simp_all
  finally show ?thesis .
qed

lemma daysBeforeMonth_succ:
  "0 \<le> m \<Longrightarrow> m < 11 \<Longrightarrow> daysBeforeMonth y (m + 1) = daysBeforeMonth y m + daysInMonth y m"
proof -
  assume "0 \<le> m" "m < 11"
  then have "m = 0 \<or> m = 1 \<or> m = 2 \<or> m = 3 \<or> m = 4 \<or> m = 5 \<or> m = 6 \<or> m = 7 \<or> m = 8
      \<or> m = 9 \<or> m = 10" by presburger
  then show ?thesis by (auto simp: daysBeforeMonth_def daysInMonth_def)
qed

lemma dayNumber_nextDay:
  assumes "validDate d"
  shows "dayNumber (nextDay d) = dayNumber d + 1"
proof (cases "date d < daysInMonth (year d) (month d)")
  case True
  then show ?thesis by (simp add: nextDay_def dayNumber_def dayWithinYear_def)
next
  case False
  with assms have eq: "date d = daysInMonth (year d) (month d)" by (simp add: validDate_def)
  show ?thesis
  proof (cases "month d = 11")
    case True
    with False eq show ?thesis
      by (simp add: nextDay_def dayNumber_def dayWithinYear_def dayFromYear_succ
          daysBeforeMonth_def daysInMonth_def)
  next
    case False
    with assms have "0 \<le> month d" "month d < 11" by (simp_all add: validDate_def)
    from daysBeforeMonth_succ [OF this, of "year d"] False eq
      \<open>\<not> date d < daysInMonth (year d) (month d)\<close>
    show ?thesis by (simp add: nextDay_def dayNumber_def dayWithinYear_def)
  qed
qed

lemma getDay_nextDay: "validDate d \<Longrightarrow> getDay (nextDay d) = (getDay d + 1) mod 7"
  by (simp add: getDay_def dayNumber_nextDay) presburger

lemma validDate_plusDays: "validDate d \<Longrightarrow> validDate (plusDays k d)"
  by (induction k) (simp_all add: plusDays_def validDate_nextDay)

lemma dayNumber_plusDays: "validDate d \<Longrightarrow> dayNumber (plusDays k d) = dayNumber d + int k"
proof (induction k)
  case 0
  then show ?case by (simp add: plusDays_def)
next
  case (Suc k)
  then have "validDate (plusDays k d)" by (simp add: validDate_plusDays)
  from dayNumber_nextDay [OF this] Suc show ?case by (simp add: plusDays_def)
qed

lemma getDay_plusDays_7: "validDate d \<Longrightarrow> getDay (plusDays 7 d) = getDay d"
  by (simp add: getDay_def dayNumber_plusDays) presburger

lemma newDateYMD_in_month:
  assumes "\<not> (0 \<le> y \<and> y \<le> 99)" "0 \<le> m" "m < 12" "1 \<le> d" "d \<le> daysInMonth y m"
  shows "newDateYMD y m d = \<lparr>year = y, month = m, date = d, msOfDay = 0\<rparr>"
proof -
  from assms have "m div 12 = 0" "m mod 12 = m" by simp_all
  with assms show ?thesis by (auto simp add: newDateYMD_def fixDay_valid)
qed

lemma newDateYMD_next_month:
  assumes "\<not> (0 \<le> y \<and> y \<le> 99)" "0 \<le> m" "m < 12" "1 \<le> d"
    and "d \<le> daysInMonth (if m = 11 then y + 1 else y) (if m = 11 then 0 else m + 1)"
  shows "newDateYMD y (m + 1) d =
    \<lparr>year = (if m = 11 then y + 1 else y), month = (if m = 11 then 0 else m + 1),
     date = d, msOfDay = 0\<rparr>"
proof (cases "m = 11")
  case True
  with assms show ?thesis by (auto simp add: newDateYMD_def fixDay_valid)
next
  case False
  with assms have "(m + 1) div 12 = 0" "(m + 1) mod 12 = m + 1" by simp_all
  with assms False show ?thesis by (auto simp add: newDateYMD_def fixDay_valid)
qed

lemma valid_sampleNow: "validDate sampleNow"
  by (simp add: validDate_def sampleNow_def daysInMonth_def msPerDay_def)

lemma getDay_sampleNow: "getDay sampleNow = 3"
  by (simp add: sampleNow_def weekday_defs)

lemma plusDays_sampleNow:
  "plusDays 1 sampleNow = \<lparr>year = 2024, month = 2, date = 21, msOfDay = 37800000\<rparr>"
  "plusDays 2 sampleNow = \<lparr>year = 2024, month = 2, date = 22, msOfDay = 37800000\<rparr>"
  "plusDays 3 sampleNow = \<lparr>year = 2024, month = 2, date = 23, msOfDay = 37800000\<rparr>"
  "plusDays 5 sampleNow = \<lparr>year = 2024, month = 2, date = 25, msOfDay = 37800000\<rparr>"
  "plusDays 7 sampleNow = \<lparr>year = 2024, month = 2, date = 27, msOfDay = 37800000\<rparr>"
  using setDate_plusDays [OF valid_sampleNow, of 1] setDate_plusDays [OF valid_sampleNow, of 2]
    setDate_plusDays [OF valid_sampleNow, of 3] setDate_plusDays [OF valid_sampleNow, of 5]
    setDate_plusDays [OF valid_sampleNow, of 7]
  by (simp_all add: sampleNow_def setDate_def cal_defs)

section \<open>The sanitizer\<close>

text \<open>
  C4, as the specification states it: sanitizing is idempotent. It is not. The patterns
  are applied once each, in order, and deleting a phrase can join its neighbours into a
  new one: in \<open>jin jin tian tian\<close> the inner \<open>jin tian\<close> ("today") is deleted and the
  outer two characters form \<open>jin tian\<close> again, which only a second run deletes.
\<close>

theorem stripDateWords_not_idempotent:
  "stripDateWords (stripDateWords [zh_jin, zh_jin, zh_tian, zh_tian]) \<noteq>
     stripDateWords [zh_jin, zh_jin, zh_tian, zh_tian]"
proof -
  have "stripDateWords [zh_jin, zh_jin, zh_tian, zh_tian] = [zh_jin, zh_tian]"
    by (simp add: strip_defs)
  moreover have "stripDateWords [zh_jin, zh_tian] = []"
    by (simp add: strip_defs)
  ultimately show ?thesis by simp
qed

text \<open>
  C4, amended. Sanitizing a sanitized text changes nothing whenever the sanitized text
  contains no match of a date pattern, that is, whenever the deletions joined no new date
  phrase together. The normalisation of white space is idempotent without condition.
\<close>

theorem stripDateWords_idempotent_when_clean:
  assumes "\<forall>p \<in> set datePatterns. \<not> test p (stripDateWords x)"
  shows "stripDateWords (stripDateWords x) = stripDateWords x"
  using assms noRun_stripDateWords trim_stripDateWords by (rule stripDateWords_fixed)

text \<open>
  The theorem at \<open>ming tian\<close> SPACE \<open>mai cai\<close>, "tomorrow buy vegetables", whose
  sanitized text \<open>mai cai\<close> no pattern matches.
\<close>

theorem stripDateWords_idempotent_when_clean_witness:
  "stripDateWords [zh_ming, zh_tian, 32, 20080, 33756] = [20080, 33756]
   \<and> stripDateWords (stripDateWords [zh_ming, zh_tian, 32, 20080, 33756]) =
       stripDateWords [zh_ming, zh_tian, 32, 20080, 33756]"
proof -
  have v: "stripDateWords [zh_ming, zh_tian, 32, 20080, 33756] = [20080, 33756]"
    by (simp add: strip_defs)
  have h: "\<forall>p \<in> set datePatterns. \<not> test p (stripDateWords [zh_ming, zh_tian, 32, 20080, 33756])"
    unfolding v by (simp add: datePatterns_def is_digit_def)
  from stripDateWords_idempotent_when_clean [OF h] v show ?thesis by simp
qed

text \<open>
  C5. The specification has every recognised date phrase removed in full. The code
  leaves a fragment of two of its own phrases. The pattern of the week prefixes runs
  before the weekday patterns and deletes \<open>xia zhou\<close> from \<open>xia zhou wu\<close>
  ("Friday of next week"), after which no pattern matches the weekday character
  \<open>wu\<close>: "Friday of next week, hand in the report" becomes \<open>wu\<close> "hand in the
  report". Likewise \<open>hou tian\<close> is deleted before \<open>da hou tian\<close> is tried, so
  "in three days, meeting" keeps the character \<open>da\<close>.
\<close>

theorem stripDateWords_leaves_fragment:
  "stripDateWords [zh_xia, zh_zhou, zh_wu, 20132, 25253, 21578] = [zh_wu, 20132, 25253, 21578]
   \<and> stripDateWords [zh_da, zh_hou, zh_tian, 24320, 20250] = [zh_da, 24320, 20250]"
  by (simp add: strip_defs)

section \<open>The derivation\<close>

text \<open>
  C10. For every string the derivation returns at least one task. The model has no
  failing branch because the source has none: it does not throw, and of the library
  calls only \<^verbatim>\<open>toISOString\<close> can, on a date outside the representable range, which
  a clock reading and the dates at most a month after it are not. When no segment
  survives, the result is exactly one task, a to-do with the job label.
\<close>

theorem processTranscriptToTasks_nonempty:
  "fst (processTranscriptToTasks tz u clk) \<noteq> []
   \<and> (filterBoolean (map trim (map stripDateWords
          (filterBoolean (map trim (split isSeparator u))))) = []
        \<longrightarrow> (\<exists>t. fst (processTranscriptToTasks tz u clk) = [t]
                \<and> tag t = Some Work \<and> type' t = todo))"
  by (simp add: processTranscriptToTasks_def Let_def split_beta enumerate_Nil_iff)

text \<open>
  The degenerate case at three ideographic full stops, and at \<open>ming tian\<close>
  ("tomorrow") alone, which sanitizes to nothing.
\<close>

theorem processTranscriptToTasks_nonempty_witness:
  "(filterBoolean (map trim (map stripDateWords
        (filterBoolean (map trim (split isSeparator [12290, 12290, 12290]))))) = []
    \<and> (\<exists>t. fst (processTranscriptToTasks 480 [12290, 12290, 12290] (readings sampleNow []))
             = [t] \<and> tag t = Some Work \<and> type' t = todo))
   \<and> (filterBoolean (map trim (map stripDateWords
        (filterBoolean (map trim (split isSeparator [zh_ming, zh_tian]))))) = []
    \<and> (\<exists>t. fst (processTranscriptToTasks 480 [zh_ming, zh_tian] (readings sampleNow []))
             = [t] \<and> tag t = Some Work \<and> type' t = todo))"
proof -
  have h1: "filterBoolean (map trim (map stripDateWords
        (filterBoolean (map trim (split isSeparator [12290, 12290, 12290]))))) = []"
    by (simp add: filterBoolean_def isSeparator_def trim_def)
  have r2: "filterBoolean (map trim (split isSeparator [zh_ming, zh_tian])) = [[zh_ming, zh_tian]]"
    by (simp add: filterBoolean_def isSeparator_def trim_def is_ws_def Let_def)
  have s2: "stripDateWords [zh_ming, zh_tian] = []"
    by (simp add: strip_defs)
  have h2: "filterBoolean (map trim (map stripDateWords
        (filterBoolean (map trim (split isSeparator [zh_ming, zh_tian]))))) = []"
    unfolding r2 by (simp add: s2 filterBoolean_def trim_def)
  from processTranscriptToTasks_nonempty
         [where u = "[12290, 12290, 12290]" and tz = 480 and clk = "readings sampleNow []"]
       processTranscriptToTasks_nonempty
         [where u = "[zh_ming, zh_tian]" and tz = 480 and clk = "readings sampleNow []"]
       h1 h2
  show ?thesis by blast
qed

lemma map_text_enumerate:
  "map text' (map (\<lambda>(index, item). \<lparr>id' = f index, type' = ty, text' = item,
      tag = g item, completed = c, createdAt = ca\<rparr>) (enumerate n xs)) = xs"
  by (induction xs arbitrary: n) auto

lemma process_texts:
  "map text' (fst (processTranscriptToTasks tz u clk)) =
     (let kept = filter (\<lambda>s. s \<noteq> [])
            (map stripDateWords (filterBoolean (map trim (split isSeparator u))))
      in if kept \<noteq> [] then kept
         else if stripDateWords u \<noteq> [] then [stripDateWords u] else [trim u])"
  by (simp add: processTranscriptToTasks_def Let_def split_beta map_text_enumerate
      trim_stripDateWords filterBoolean_def o_def)

lemma raw_tomorrow_buy:
  "filterBoolean (map trim (split isSeparator [zh_ming, zh_tian, 65292, 20080, 33756])) =
     [[zh_ming, zh_tian], [20080, 33756]]"
  by (simp add: filterBoolean_def isSeparator_def trim_def is_ws_def Let_def)

lemma strip_tomorrow: "stripDateWords [zh_ming, zh_tian] = []"
  by (simp add: strip_defs)

lemma strip_buy: "stripDateWords [20080, 33756] = [20080, 33756]"
  by (simp add: strip_defs)

text \<open>
  C2, as the specification states it: an item whose sanitized text is empty yields a
  task with the trimmed raw item, and no item is dropped. The code filters the empty
  sanitized texts out. "Tomorrow, buy vegetables" (\<open>ming tian\<close>, fullwidth comma,
  \<open>mai cai\<close>) has the two items \<open>ming tian\<close> and \<open>mai cai\<close>; the first sanitizes to
  nothing and the result is the single task \<open>mai cai\<close>.
\<close>

theorem empty_sanitized_item_is_dropped:
  "filterBoolean (map trim (split isSeparator [zh_ming, zh_tian, 65292, 20080, 33756])) =
     [[zh_ming, zh_tian], [20080, 33756]]
   \<and> stripDateWords [zh_ming, zh_tian] = []
   \<and> map text' (fst (processTranscriptToTasks 480 [zh_ming, zh_tian, 65292, 20080, 33756]
          (readings sampleNow []))) = [[20080, 33756]]"
  by (simp only: process_texts raw_tomorrow_buy) (simp add: strip_tomorrow strip_buy)

text \<open>
  C2, amended. The tasks carry, in order, exactly the non-empty sanitized texts of the
  segmented items; an item whose sanitized text is empty yields no task. Only when no
  item is left is there a fallback, a single task for the whole utterance: its sanitized
  text, or the trimmed utterance if that is empty.
\<close>

theorem processTranscriptToTasks_texts:
  "map text' (fst (processTranscriptToTasks tz u clk)) =
     (let kept = filter (\<lambda>s. s \<noteq> [])
            (map stripDateWords (filterBoolean (map trim (split isSeparator u))))
      in if kept \<noteq> [] then kept
         else if stripDateWords u \<noteq> [] then [stripDateWords u] else [trim u])"
  by (rule process_texts)

text \<open>
  The theorem at "tomorrow, buy vegetables", where one item is kept, and at "tomorrow"
  alone, where none is and the fallback is the trimmed utterance.
\<close>

theorem processTranscriptToTasks_texts_witness:
  "map text' (fst (processTranscriptToTasks 480 [zh_ming, zh_tian, 65292, 20080, 33756]
      (readings sampleNow []))) = [[20080, 33756]]
   \<and> map text' (fst (processTranscriptToTasks 480 [zh_ming, zh_tian] (readings sampleNow [])))
      = [[zh_ming, zh_tian]]"
proof -
  have r: "filterBoolean (map trim (split isSeparator [zh_ming, zh_tian])) = [[zh_ming, zh_tian]]"
    by (simp add: filterBoolean_def isSeparator_def trim_def is_ws_def Let_def)
  have t: "trim [zh_ming, zh_tian] = [zh_ming, zh_tian]"
    by (simp add: trim_def is_ws_def Let_def)
  from processTranscriptToTasks_texts
         [where u = "[zh_ming, zh_tian, 65292, 20080, 33756]" and tz = 480
            and clk = "readings sampleNow []"]
       processTranscriptToTasks_texts
         [where u = "[zh_ming, zh_tian]" and tz = 480 and clk = "readings sampleNow []"]
  show ?thesis
    by (simp only: raw_tomorrow_buy r) (simp add: strip_tomorrow strip_buy t)
qed

section \<open>The classifier\<close>

text \<open>
  What holds of the classifier as the specification has it: a text that contains a
  venture keyword is venture, whatever else it contains, and Latin keywords are found
  in either case.
\<close>

lemma classify_venture_first:
  assumes "kw \<in> set ramenWords"
  shows "classify (a @ kw @ b) = Ramen"
proof -
  from assms have "test (alts ramenWords) (a @ kw @ b)" by (rule test_alts_contains)
  then show ?thesis by (simp add: classify_def)
qed

lemma classify_upper_case_latin: "classify (ascii ''CSS'') = WebDev"
  by (simp add: eval_defs)

text \<open>The labels of a batch are the classifier's labels of the kept items.\<close>

lemma map_tag_enumerate:
  "map tag (map (\<lambda>(index, item). \<lparr>id' = f index, type' = ty, text' = item,
      tag = g item, completed = c, createdAt = ca\<rparr>) (enumerate n xs)) = map g xs"
  by (induction xs arbitrary: n) auto

lemma map_trim_stripDateWords: "map trim (map stripDateWords xs) = map stripDateWords xs"
  by (simp add: trim_stripDateWords)

lemma process_tags:
  "map tag (fst (processTranscriptToTasks tz u clk)) =
     (let kept = filter (\<lambda>s. s \<noteq> [])
            (map stripDateWords (filterBoolean (map trim (split isSeparator u))))
      in if kept \<noteq> [] then map (\<lambda>s. Some (classify s)) kept else [Some Work])"
  by (simp add: processTranscriptToTasks_def Let_def split_beta map_tag_enumerate
      map_trim_stripDateWords filterBoolean_def del: map_map)

lemma raw_festival:
  "filterBoolean (map trim (split isSeparator [31471, 21320, 33410, 21069])) =
     [[31471, 21320, 33410, 21069]]"
  by (simp add: filterBoolean_def isSeparator_def trim_def is_ws_def Let_def)

lemma strip_festival:
  "stripDateWords [31471, 21320, 33410, 21069] = [31471, 21320, 33410, 21069]"
  by (simp add: strip_defs)

lemma classify_festival: "classify [31471, 21320, 33410, 21069] = WebDev"
  by (simp add: eval_defs)

text \<open>
  C9. The specification has the label decided by the keywords that occur in the text:
  families in the order venture, learning, job, life, the first with a keyword in the
  text wins, and a text without any keyword gets the job label. The code looks for the
  learning keywords in the lower-cased text followed directly by the text itself, with
  nothing between the two, so a keyword can form across the join. U+7AEF U+5348 U+8282
  U+524D ("before the Dragon Boat Festival") contains no keyword of any family, in
  either case; it ends in U+524D and begins with U+7AEF, and U+524D U+7AEF ("front end")
  is a learning keyword: the code answers learning, where the specification has the job
  fallback, and the derivation labels the utterance so. U+7AEF U+53E3 U+62A5 U+544A
  U+63D0 U+524D ("port report ahead of time") contains the job keyword U+62A5 U+544A
  and no learning keyword; the code answers learning for it too.
\<close>

theorem classify_keyword_across_join:
  "\<not> test (alts ramenWords) [31471, 21320, 33410, 21069]
   \<and> \<not> test (alts webWords) [31471, 21320, 33410, 21069]
   \<and> \<not> test (alts webWords) (toLowerCase [31471, 21320, 33410, 21069])
   \<and> \<not> test (alts workWords) [31471, 21320, 33410, 21069]
   \<and> \<not> test (alts lifeWords) [31471, 21320, 33410, 21069]
   \<and> classify [31471, 21320, 33410, 21069] = WebDev
   \<and> map tag (fst (processTranscriptToTasks 480 [31471, 21320, 33410, 21069]
        (readings sampleNow []))) = [Some WebDev]
   \<and> \<not> test (alts ramenWords) [31471, 21475, 25253, 21578, 25552, 21069]
   \<and> \<not> test (alts webWords) [31471, 21475, 25253, 21578, 25552, 21069]
   \<and> \<not> test (alts webWords) (toLowerCase [31471, 21475, 25253, 21578, 25552, 21069])
   \<and> test (alts workWords) [31471, 21475, 25253, 21578, 25552, 21069]
   \<and> classify [31471, 21475, 25253, 21578, 25552, 21069] = WebDev"
proof -
  have t: "map tag (fst (processTranscriptToTasks 480 [31471, 21320, 33410, 21069]
        (readings sampleNow []))) = [Some WebDev]"
    by (simp only: process_tags raw_festival) (simp add: strip_festival classify_festival)
  have rest: "\<not> test (alts ramenWords) [31471, 21320, 33410, 21069]
   \<and> \<not> test (alts webWords) [31471, 21320, 33410, 21069]
   \<and> \<not> test (alts webWords) (toLowerCase [31471, 21320, 33410, 21069])
   \<and> \<not> test (alts workWords) [31471, 21320, 33410, 21069]
   \<and> \<not> test (alts lifeWords) [31471, 21320, 33410, 21069]
   \<and> classify [31471, 21320, 33410, 21069] = WebDev"
    by (simp add: eval_defs)
  have two: "\<not> test (alts ramenWords) [31471, 21475, 25253, 21578, 25552, 21069]
   \<and> \<not> test (alts webWords) [31471, 21475, 25253, 21578, 25552, 21069]
   \<and> \<not> test (alts webWords) (toLowerCase [31471, 21475, 25253, 21578, 25552, 21069])
   \<and> test (alts workWords) [31471, 21475, 25253, 21578, 25552, 21069]
   \<and> classify [31471, 21475, 25253, 21578, 25552, 21069] = WebDev"
    by (simp add: eval_defs)
  from rest t two show ?thesis by blast
qed

section \<open>The resolver\<close>

lemma removeSpaces_contains:
  "removeSpaces w = w \<Longrightarrow> test (Lit w) (removeSpaces (a @ w @ b))"
proof -
  assume w: "removeSpaces w = w"
  have "removeSpaces (a @ w @ b) = removeSpaces a @ w @ removeSpaces b"
    using w by (simp add: removeSpaces_def)
  then show ?thesis by (simp only: test_Lit_contains)
qed

lemma snd_getScheduledDateFromText:
  "snd (getScheduledDateFromText u clk) = (\<lambda>n. clk (Suc n))"
  by (simp add: getScheduledDateFromText_def newDateNow_def Let_def split: option.splits)

lemma fst_getScheduledDateFromText_clock:
  "clk 0 = clk' 0 \<Longrightarrow>
   fst (getScheduledDateFromText u clk) = fst (getScheduledDateFromText u clk')"
  by (simp add: getScheduledDateFromText_def newDateNow_def Let_def split: option.splits)

text \<open>
  C6. The relative-day words are tried first and in the order \<open>da hou tian\<close>,
  \<open>hou tian\<close>, \<open>ming tian\<close> or \<open>ming ri\<close>, \<open>jin tian\<close> or \<open>jin ri\<close> or
  \<open>jin er\<close>; the first that occurs in the text (white space removed) decides, giving
  the clock reading moved by 3, 2, 1 or 0 days with its time of day kept. In particular
  a text that contains \<open>da hou tian\<close> and also the weekday phrase \<open>xing qi wu\<close>
  ("Friday") resolves to three days after the reading.
\<close>

theorem relative_day_rules_in_order:
  assumes "validDate (clk 0)"
  shows "(test reDaHouTian (removeSpaces u)
            \<longrightarrow> fst (getScheduledDateFromText u clk) = Some (plusDays 3 (clk 0)))
   \<and> (\<not> test reDaHouTian (removeSpaces u) \<and> test reHouTian (removeSpaces u)
            \<longrightarrow> fst (getScheduledDateFromText u clk) = Some (plusDays 2 (clk 0)))
   \<and> (\<not> test reDaHouTian (removeSpaces u) \<and> \<not> test reHouTian (removeSpaces u)
        \<and> test reTomorrow (removeSpaces u)
            \<longrightarrow> fst (getScheduledDateFromText u clk) = Some (plusDays 1 (clk 0)))
   \<and> (\<not> test reDaHouTian (removeSpaces u) \<and> \<not> test reHouTian (removeSpaces u)
        \<and> \<not> test reTomorrow (removeSpaces u) \<and> test reToday (removeSpaces u)
            \<longrightarrow> fst (getScheduledDateFromText u clk) = Some (clk 0))
   \<and> (\<forall>a b c d. u = a @ [zh_da, zh_hou, zh_tian] @ b \<and> u = c @ [zh_xing, zh_qi, zh_wu] @ d
            \<longrightarrow> fst (getScheduledDateFromText u clk) = Some (plusDays 3 (clk 0)))"
proof -
  have p3: "setDate (clk 0) (date (clk 0) + 3) = plusDays 3 (clk 0)"
    using setDate_plusDays [OF assms, of 3] by simp
  have p2: "setDate (clk 0) (date (clk 0) + 2) = plusDays 2 (clk 0)"
    using setDate_plusDays [OF assms, of 2] by simp
  have p1: "setDate (clk 0) (date (clk 0) + 1) = plusDays 1 (clk 0)"
    using setDate_plusDays [OF assms, of 1] by simp
  have r3: "fst (getScheduledDateFromText u clk) = Some (plusDays 3 (clk 0))"
    if "test reDaHouTian (removeSpaces u)"
    using that by (simp add: getScheduledDateFromText_def newDateNow_def Let_def p3)
  have r2: "fst (getScheduledDateFromText u clk) = Some (plusDays 2 (clk 0))"
    if "\<not> test reDaHouTian (removeSpaces u)" "test reHouTian (removeSpaces u)"
    using that by (simp add: getScheduledDateFromText_def newDateNow_def Let_def p2)
  have r1: "fst (getScheduledDateFromText u clk) = Some (plusDays 1 (clk 0))"
    if "\<not> test reDaHouTian (removeSpaces u)" "\<not> test reHouTian (removeSpaces u)"
       "test reTomorrow (removeSpaces u)"
    using that by (simp add: getScheduledDateFromText_def newDateNow_def Let_def p1)
  have r0: "fst (getScheduledDateFromText u clk) = Some (clk 0)"
    if "\<not> test reDaHouTian (removeSpaces u)" "\<not> test reHouTian (removeSpaces u)"
       "\<not> test reTomorrow (removeSpaces u)" "test reToday (removeSpaces u)"
    using that by (simp add: getScheduledDateFromText_def newDateNow_def Let_def)
  have both: "fst (getScheduledDateFromText u clk) = Some (plusDays 3 (clk 0))"
    if "u = a @ [zh_da, zh_hou, zh_tian] @ b" for a b
  proof -
    have "removeSpaces [zh_da, zh_hou, zh_tian] = [zh_da, zh_hou, zh_tian]"
      by (simp add: removeSpaces_def is_ws_def)
    then have "test reDaHouTian (removeSpaces u)"
      unfolding that reDaHouTian_def by (rule removeSpaces_contains)
    then show ?thesis by (rule r3)
  qed
  from r3 r2 r1 r0 both show ?thesis by blast
qed

text \<open>
  The theorem on Wednesday 20 March 2024, 10:30: "in three days, Friday, meeting" gives
  the 23rd, \<open>hou tian\<close> the 22nd, \<open>ming ri\<close> the 21st and \<open>jin er\<close> the 20th,
  each at 10:30.
\<close>

theorem relative_day_rules_in_order_witness:
  "fst (getScheduledDateFromText [zh_da, zh_hou, zh_tian, zh_xing, zh_qi, zh_wu, 24320, 20250]
      (readings sampleNow [])) = Some \<lparr>year = 2024, month = 2, date = 23, msOfDay = 37800000\<rparr>
   \<and> fst (getScheduledDateFromText [zh_hou, zh_tian] (readings sampleNow []))
      = Some \<lparr>year = 2024, month = 2, date = 22, msOfDay = 37800000\<rparr>
   \<and> fst (getScheduledDateFromText [zh_ming, zh_ri] (readings sampleNow []))
      = Some \<lparr>year = 2024, month = 2, date = 21, msOfDay = 37800000\<rparr>
   \<and> fst (getScheduledDateFromText [zh_jin, zh_er_suffix] (readings sampleNow []))
      = Some \<lparr>year = 2024, month = 2, date = 20, msOfDay = 37800000\<rparr>"
proof -
  have v: "validDate (readings sampleNow [] 0)" by (simp add: valid_sampleNow)
  have t3: "test reDaHouTian
      (removeSpaces [zh_da, zh_hou, zh_tian, zh_xing, zh_qi, zh_wu, 24320, 20250])"
    by (simp add: re_defs)
  have t2: "\<not> test reDaHouTian (removeSpaces [zh_hou, zh_tian])"
      "test reHouTian (removeSpaces [zh_hou, zh_tian])"
    by (simp_all add: re_defs)
  have t1: "\<not> test reDaHouTian (removeSpaces [zh_ming, zh_ri])"
      "\<not> test reHouTian (removeSpaces [zh_ming, zh_ri])"
      "test reTomorrow (removeSpaces [zh_ming, zh_ri])"
    by (simp_all add: re_defs)
  have t0: "\<not> test reDaHouTian (removeSpaces [zh_jin, zh_er_suffix])"
      "\<not> test reHouTian (removeSpaces [zh_jin, zh_er_suffix])"
      "\<not> test reTomorrow (removeSpaces [zh_jin, zh_er_suffix])"
      "test reToday (removeSpaces [zh_jin, zh_er_suffix])"
    by (simp_all add: re_defs)
  note inst = relative_day_rules_in_order [where clk = "readings sampleNow []", OF v]
  have c3: "fst (getScheduledDateFromText
        [zh_da, zh_hou, zh_tian, zh_xing, zh_qi, zh_wu, 24320, 20250] (readings sampleNow []))
      = Some (plusDays 3 (readings sampleNow [] 0))"
    using inst [where u = "[zh_da, zh_hou, zh_tian, zh_xing, zh_qi, zh_wu, 24320, 20250]"] t3
    by blast
  have c2: "fst (getScheduledDateFromText [zh_hou, zh_tian] (readings sampleNow []))
      = Some (plusDays 2 (readings sampleNow [] 0))"
    using inst [where u = "[zh_hou, zh_tian]"] t2 by blast
  have c1: "fst (getScheduledDateFromText [zh_ming, zh_ri] (readings sampleNow []))
      = Some (plusDays 1 (readings sampleNow [] 0))"
    using inst [where u = "[zh_ming, zh_ri]"] t1 by blast
  have c0: "fst (getScheduledDateFromText [zh_jin, zh_er_suffix] (readings sampleNow []))
      = Some (readings sampleNow [] 0)"
    using inst [where u = "[zh_jin, zh_er_suffix]"] t0 by blast
  have r: "readings sampleNow [] 0 = sampleNow" by simp
  show ?thesis
    unfolding c3 c2 c1 c0 r plusDays_sampleNow by (simp add: sampleNow_def)
qed

text \<open>
  The day-of-month rule in terms of the match of its pattern: \<open>m\<close> is the matched
  text, its digits are the first capture group.
\<close>

lemma resolve_day_of_month:
  assumes valid: "validDate (clk 0)"
    and yr: "\<not> (0 \<le> year (clk 0) \<and> year (clk 0) \<le> 99)"
    and rel: "\<not> test reDaHouTian (removeSpaces u)" "\<not> test reHouTian (removeSpaces u)"
      "\<not> test reTomorrow (removeSpaces u)" "\<not> test reToday (removeSpaces u)"
    and dm: "rmatch reDay (removeSpaces u) = Some m"
    and n: "n = parseInt (butlast m)"
  shows "(1 \<le> n \<and> n < date (clk 0)
          \<and> n \<le> daysInMonth (if month (clk 0) = 11 then year (clk 0) + 1 else year (clk 0))
                   (if month (clk 0) = 11 then 0 else month (clk 0) + 1)
        \<longrightarrow> fst (getScheduledDateFromText u clk) =
            Some \<lparr>year = (if month (clk 0) = 11 then year (clk 0) + 1 else year (clk 0)),
                  month = (if month (clk 0) = 11 then 0 else month (clk 0) + 1),
                  date = n, msOfDay = 0\<rparr>)
   \<and> (date (clk 0) \<le> n \<and> n \<le> daysInMonth (year (clk 0)) (month (clk 0))
        \<longrightarrow> fst (getScheduledDateFromText u clk) =
            Some \<lparr>year = year (clk 0), month = month (clk 0), date = n, msOfDay = 0\<rparr>)
   \<and> ((n < 1 \<or> 31 < n) \<and> rmatch reWeek (removeSpaces u) = None
        \<longrightarrow> fst (getScheduledDateFromText u clk) = None)"
proof -
  let ?now = "clk 0"
  from valid have m0: "0 \<le> month ?now" "month ?now < 12" and d0: "1 \<le> date ?now"
    and d1: "date ?now \<le> daysInMonth (year ?now) (month ?now)"
    by (simp_all add: validDate_def)
  have today: "newDateYMD (year ?now) (month ?now) (date ?now) =
      \<lparr>year = year ?now, month = month ?now, date = date ?now, msOfDay = 0\<rparr>"
    using yr m0 d0 d1 by (rule newDateYMD_in_month)
  have le31: "daysInMonth (year ?now) (month ?now) \<le> 31"
    using daysInMonth_bounds by simp
  have a: "fst (getScheduledDateFromText u clk) =
            Some \<lparr>year = (if month ?now = 11 then year ?now + 1 else year ?now),
                  month = (if month ?now = 11 then 0 else month ?now + 1),
                  date = n, msOfDay = 0\<rparr>"
    if "1 \<le> n" "n < date ?now"
       "n \<le> daysInMonth (if month ?now = 11 then year ?now + 1 else year ?now)
                   (if month ?now = 11 then 0 else month ?now + 1)"
  proof -
    from that d1 have nd: "n \<le> daysInMonth (year ?now) (month ?now)" by simp
    have this_month: "newDateYMD (year ?now) (month ?now) n =
        \<lparr>year = year ?now, month = month ?now, date = n, msOfDay = 0\<rparr>"
      using yr m0 that(1) nd by (rule newDateYMD_in_month)
    have next_month: "newDateYMD (year ?now) (month ?now + 1) n =
        \<lparr>year = (if month ?now = 11 then year ?now + 1 else year ?now),
         month = (if month ?now = 11 then 0 else month ?now + 1), date = n, msOfDay = 0\<rparr>"
      using yr m0 that(1) that(3) by (rule newDateYMD_next_month)
    from that nd le31 have rng: "n \<le> 31" by simp
    show ?thesis
      using rel dm n [symmetric] that(1,2) rng
      by (simp add: getScheduledDateFromText_def newDateNow_def Let_def this_month today
          next_month dateLess_def)
  qed
  have b: "fst (getScheduledDateFromText u clk) =
            Some \<lparr>year = year ?now, month = month ?now, date = n, msOfDay = 0\<rparr>"
    if "date ?now \<le> n" "n \<le> daysInMonth (year ?now) (month ?now)"
  proof -
    from that d0 have n1: "1 \<le> n" by simp
    have this_month: "newDateYMD (year ?now) (month ?now) n =
        \<lparr>year = year ?now, month = month ?now, date = n, msOfDay = 0\<rparr>"
      using yr m0 n1 that(2) by (rule newDateYMD_in_month)
    from that le31 have rng: "n \<le> 31" by simp
    show ?thesis
      using rel dm n [symmetric] n1 rng that(1)
      by (simp add: getScheduledDateFromText_def newDateNow_def Let_def this_month today
          dateLess_def)
  qed
  have c: "fst (getScheduledDateFromText u clk) = None"
    if "n < 1 \<or> 31 < n" "rmatch reWeek (removeSpaces u) = None"
    using rel dm n [symmetric] that
    by (auto simp add: getScheduledDateFromText_def newDateNow_def Let_def)
  from a b c show ?thesis by blast
qed

text \<open>
  Where the pattern first matches. A match of the day pattern is one or two digits and
  \<open>hao\<close> or \<open>ri\<close>; if the text before a number of one or two digits has no match
  and does not end in a digit, the first match is that number with its \<open>hao\<close> or
  \<open>ri\<close>.
\<close>

lemma ends_reDay_cases:
  assumes "ends reDay s \<noteq> []"
  shows "(\<exists>d h r. s = d # h # r \<and> is_digit d \<and> (h = zh_hao \<or> h = zh_ri))
       \<or> (\<exists>d1 d2 h r. s = d1 # d2 # h # r \<and> is_digit d1 \<and> is_digit d2
              \<and> (h = zh_hao \<or> h = zh_ri))"
proof (cases s)
  case Nil
  with assms show ?thesis by (simp add: reDay_def)
next
  case s1: (Cons d r1)
  show ?thesis
  proof (cases r1)
    case Nil
    with assms s1 show ?thesis by (simp add: reDay_def split: if_splits)
  next
    case s2: (Cons h r2)
    show ?thesis
    proof (cases r2)
      case Nil
      with assms s1 s2 show ?thesis by (auto simp: reDay_def split: if_splits)
    next
      case s3: (Cons k r3)
      with assms s1 s2 show ?thesis by (auto simp: reDay_def split: if_splits)
    qed
  qed
qed

lemma ends_reDay_one:
  "is_digit d \<Longrightarrow> h = zh_hao \<or> h = zh_ri \<Longrightarrow> ends reDay (d # h # r) = [r]"
  by (auto simp: reDay_def is_digit_def)

lemma ends_reDay_two:
  "is_digit d1 \<Longrightarrow> is_digit d2 \<Longrightarrow> h = zh_hao \<or> h = zh_ri
     \<Longrightarrow> ends reDay (d1 # d2 # h # r) = [r]"
  by (auto simp: reDay_def is_digit_def)

lemma ends_reDay_skip:
  assumes nt: "\<not> test reDay (c # pre)" and lst: "\<not> is_digit (last (c # pre))"
  shows "ends reDay (c # pre @ s) = []"
proof (rule ccontr)
  assume "ends reDay (c # pre @ s) \<noteq> []"
  from ends_reDay_cases [OF this] consider
      (one) d h r where "c # pre @ s = d # h # r" "is_digit d" "h = zh_hao \<or> h = zh_ri"
    | (two) d1 d2 h r where "c # pre @ s = d1 # d2 # h # r" "is_digit d1" "is_digit d2"
        "h = zh_hao \<or> h = zh_ri"
    by blast
  then show False
  proof cases
    case one
    show False
    proof (cases pre)
      case Nil
      with one lst show False by simp
    next
      case (Cons p ps)
      with one have "c # pre = d # h # ps" by simp
      with ends_reDay_one [OF one(2,3), of ps] have "ends reDay (c # pre) \<noteq> []" by simp
      with nt show False by simp
    qed
  next
    case two
    show False
    proof (cases pre)
      case Nil
      with two lst show False by simp
    next
      case p1: (Cons p ps)
      show False
      proof (cases ps)
        case Nil
        with two p1 lst show False by simp
      next
        case (Cons q qs)
        with two p1 have "c # pre = d1 # d2 # h # qs" by simp
        with ends_reDay_two [OF two(2,3,4), of qs] have "ends reDay (c # pre) \<noteq> []" by simp
        with nt show False by simp
      qed
    qed
  qed
qed

lemma rmatch_reDay_skip:
  assumes "\<not> test reDay pre" "pre = [] \<or> \<not> is_digit (last pre)"
  shows "rmatch reDay (pre @ s) = rmatch reDay s"
  using assms
proof (induction pre)
  case Nil
  then show ?case by simp
next
  case (Cons c pre)
  from Cons.prems have nt: "\<not> test reDay (c # pre)" and lst: "\<not> is_digit (last (c # pre))"
    by simp_all
  have e: "ends reDay (c # pre @ s) = []" using nt lst by (rule ends_reDay_skip)
  from nt have nt': "\<not> test reDay pre" by simp
  from lst have lst': "pre = [] \<or> \<not> is_digit (last pre)" by (cases pre) simp_all
  from e Cons.IH [OF nt' lst'] show ?case by simp
qed

lemma rmatch_reDay_first:
  assumes "\<not> test reDay pre" "pre = [] \<or> \<not> is_digit (last pre)"
    and "ds = [d1] \<or> ds = [d1, d2]" "\<forall>c \<in> set ds. is_digit c"
    and "h = zh_hao \<or> h = zh_ri"
  shows "rmatch reDay (pre @ ds @ [h] @ post) = Some (ds @ [h])"
proof -
  have "rmatch reDay (ds @ [h] @ post) = Some (ds @ [h])"
    using assms(3)
  proof
    assume ds: "ds = [d1]"
    with assms(4) have "is_digit d1" by simp
    from ends_reDay_one [OF this assms(5), of post] ds show ?thesis by simp
  next
    assume ds: "ds = [d1, d2]"
    with assms(4) have "is_digit d1" "is_digit d2" by simp_all
    from ends_reDay_two [OF this assms(5), of post] ds show ?thesis by simp
  qed
  with rmatch_reDay_skip [OF assms(1,2)] show ?thesis by simp
qed

text \<open>
  C7, as the specification states it: a day-of-month phrase "N \<open>hao\<close>" with N from 1
  to 31 resolves to day N of the current month, or of the next month when day N of the
  current month is past, and an N outside 1 to 31 does not match the rule. Both parts
  fail. Where the month has no day N, the \<^verbatim>\<open>Date\<close> constructor carries the day
  into the following month: on 10 April 2024, "31 \<open>hao\<close>" is not past and the result
  is 1 May, not a day 31; on 30 January 2023, "29 \<open>hao\<close>" is past and the result is
  1 March 2023, not a day 29 of February. And the pattern takes at most two digits, so of
  a longer number it reads the last two: on 20 March 2024, "105 \<open>hao\<close> room" matches
  as "05 \<open>hao\<close>" and resolves to 5 April, although 105 is outside 1 to 31.
\<close>

theorem day_of_month_as_stated_fails:
  "fst (getScheduledDateFromText [51, 49, zh_hao]
      (readings \<lparr>year = 2024, month = 3, date = 10, msOfDay = 37800000\<rparr> []))
    = Some \<lparr>year = 2024, month = 4, date = 1, msOfDay = 0\<rparr>
   \<and> fst (getScheduledDateFromText [50, 57, zh_hao]
      (readings \<lparr>year = 2023, month = 0, date = 30, msOfDay = 37800000\<rparr> []))
    = Some \<lparr>year = 2023, month = 2, date = 1, msOfDay = 0\<rparr>
   \<and> fst (getScheduledDateFromText [49, 48, 53, zh_hao, 25151, 38388] (readings sampleNow []))
    = Some \<lparr>year = 2024, month = 3, date = 5, msOfDay = 0\<rparr>"
  by (simp add: getScheduledDateFromText_def Let_def newDateNow_def re_defs newDateYMD_def
      dateLess_def cal_defs sampleNow_def)

text \<open>
  C7, amended. Let no relative-day word occur in the utterance (white space removed),
  and let its first day-of-month phrase be a number N written with one or two digits,
  not the end of a longer number, followed by \<open>hao\<close> or \<open>ri\<close>; let the year of
  the reading lie outside 0 to 99. If N is at least 1 and before today's day of the
  month, the resolved calendar date is day N of the next month, provided that month
  has a day N. If N is today's day or later and the current month has a day N, the
  resolved calendar date is day N of the current month. If N is 0 or more than 31 the
  rule does not apply, and without a weekday phrase the result is "no date". Nothing is
  said of a month without a day N, of a number with more than two digits, or of the
  time of day.
\<close>

theorem day_of_month_rule:
  assumes valid: "validDate (clk 0)"
    and yr: "\<not> (0 \<le> year (clk 0) \<and> year (clk 0) \<le> 99)"
    and rel: "\<not> test reDaHouTian (removeSpaces u)" "\<not> test reHouTian (removeSpaces u)"
      "\<not> test reTomorrow (removeSpaces u)" "\<not> test reToday (removeSpaces u)"
    and form: "removeSpaces u = pre @ ds @ [h] @ post"
    and first: "\<not> test reDay pre" "pre = [] \<or> \<not> is_digit (last pre)"
    and ds: "ds = [d1] \<or> ds = [d1, d2]" "\<forall>c \<in> set ds. is_digit c"
    and h: "h = zh_hao \<or> h = zh_ri"
    and n: "n = parseInt ds"
  shows "(1 \<le> n \<and> n < date (clk 0)
          \<and> n \<le> daysInMonth (if month (clk 0) = 11 then year (clk 0) + 1 else year (clk 0))
                   (if month (clk 0) = 11 then 0 else month (clk 0) + 1)
        \<longrightarrow> map_option calendarDate (fst (getScheduledDateFromText u clk)) =
            Some (if month (clk 0) = 11 then year (clk 0) + 1 else year (clk 0),
                  if month (clk 0) = 11 then 0 else month (clk 0) + 1, n))
   \<and> (date (clk 0) \<le> n \<and> n \<le> daysInMonth (year (clk 0)) (month (clk 0))
        \<longrightarrow> map_option calendarDate (fst (getScheduledDateFromText u clk)) =
            Some (year (clk 0), month (clk 0), n))
   \<and> ((n < 1 \<or> 31 < n) \<and> rmatch reWeek (removeSpaces u) = None
        \<longrightarrow> fst (getScheduledDateFromText u clk) = None)"
proof -
  have dm: "rmatch reDay (removeSpaces u) = Some (ds @ [h])"
    unfolding form using first ds h by (rule rmatch_reDay_first)
  have n': "n = parseInt (butlast (ds @ [h]))" using n by simp
  from resolve_day_of_month [where clk = clk, OF valid yr rel dm n'] show ?thesis
    by (auto simp: calendarDate_def)
qed

text \<open>
  The theorem on 20 March 2024: "5 \<open>hao\<close>, hand in the report" gives 5 April,
  "report 25 \<open>ri\<close>" gives 25 March, and "32 \<open>hao\<close>" gives no date.
\<close>

theorem day_of_month_rule_witness:
  "map_option calendarDate
      (fst (getScheduledDateFromText [53, zh_hao, 20132, 25253, 21578] (readings sampleNow [])))
      = Some (2024, 3, 5)
   \<and> map_option calendarDate
      (fst (getScheduledDateFromText [25253, 21578, 50, 53, zh_ri] (readings sampleNow [])))
      = Some (2024, 2, 25)
   \<and> fst (getScheduledDateFromText [51, 50, zh_hao] (readings sampleNow [])) = None"
proof -
  have v: "validDate (readings sampleNow [] 0)" by (simp add: valid_sampleNow)
  have y: "\<not> (0 \<le> year (readings sampleNow [] 0) \<and> year (readings sampleNow [] 0) \<le> 99)"
    by (simp add: sampleNow_def)
  note inst = day_of_month_rule [where clk = "readings sampleNow []", OF v y]
  have e: "\<not> test reDay []" by (simp add: re_defs)
  have hao: "zh_hao = zh_hao \<or> zh_hao = zh_ri" by simp
  have ri: "zh_ri = zh_hao \<or> zh_ri = zh_ri" by simp
  have r1: "\<not> test reDaHouTian (removeSpaces [53, zh_hao, 20132, 25253, 21578])"
      "\<not> test reHouTian (removeSpaces [53, zh_hao, 20132, 25253, 21578])"
      "\<not> test reTomorrow (removeSpaces [53, zh_hao, 20132, 25253, 21578])"
      "\<not> test reToday (removeSpaces [53, zh_hao, 20132, 25253, 21578])"
    by (simp_all add: re_defs)
  have f1: "removeSpaces [53, zh_hao, 20132, 25253, 21578] =
      [] @ [53] @ [zh_hao] @ [20132, 25253, 21578]"
    by (simp add: removeSpaces_def is_ws_def)
  have c1: "map_option calendarDate
      (fst (getScheduledDateFromText [53, zh_hao, 20132, 25253, 21578] (readings sampleNow [])))
      = Some (2024, 3, 5)"
    using inst [OF r1 f1 e _ _ _ hao, where ?d1.0 = 53 and ?d2.0 = 0 and n = 5]
    by (simp add: sampleNow_def daysInMonth_def is_digit_def parseInt_def)
  have r2: "\<not> test reDaHouTian (removeSpaces [25253, 21578, 50, 53, zh_ri])"
      "\<not> test reHouTian (removeSpaces [25253, 21578, 50, 53, zh_ri])"
      "\<not> test reTomorrow (removeSpaces [25253, 21578, 50, 53, zh_ri])"
      "\<not> test reToday (removeSpaces [25253, 21578, 50, 53, zh_ri])"
    by (simp_all add: re_defs)
  have f2: "removeSpaces [25253, 21578, 50, 53, zh_ri] = [25253, 21578] @ [50, 53] @ [zh_ri] @ []"
    by (simp add: removeSpaces_def is_ws_def)
  have p2: "\<not> test reDay [25253, 21578]" by (simp add: re_defs)
  have c2: "map_option calendarDate
      (fst (getScheduledDateFromText [25253, 21578, 50, 53, zh_ri] (readings sampleNow [])))
      = Some (2024, 2, 25)"
    using inst [OF r2 f2 p2 _ _ _ ri, where ?d1.0 = 50 and ?d2.0 = 53 and n = 25]
    by (simp add: sampleNow_def daysInMonth_def is_digit_def parseInt_def)
  have r3: "\<not> test reDaHouTian (removeSpaces [51, 50, zh_hao])"
      "\<not> test reHouTian (removeSpaces [51, 50, zh_hao])"
      "\<not> test reTomorrow (removeSpaces [51, 50, zh_hao])"
      "\<not> test reToday (removeSpaces [51, 50, zh_hao])"
    by (simp_all add: re_defs)
  have f3: "removeSpaces [51, 50, zh_hao] = [] @ [51, 50] @ [zh_hao] @ []"
    by (simp add: removeSpaces_def is_ws_def)
  have w3: "rmatch reWeek (removeSpaces [51, 50, zh_hao]) = None"
    by (simp add: re_defs)
  have c3: "fst (getScheduledDateFromText [51, 50, zh_hao] (readings sampleNow [])) = None"
    using inst [OF r3 f3 e _ _ _ hao, where ?d1.0 = 51 and ?d2.0 = 50 and n = 32] w3
    by (simp add: is_digit_def parseInt_def)
  from c1 c2 c3 show ?thesis by (intro conjI)
qed

lemma ends_alts: "ws \<noteq> [] \<Longrightarrow> ends (alts ws) s = concat (map (\<lambda>w. ends (Lit w) s) ws)"
  by (induction ws rule: alts.induct) auto

lemma ends_Lit_mem: "e \<in> set (ends (Lit w) t) \<Longrightarrow> t = w @ e"
  by (auto split: if_splits) (metis append_take_drop_id)

lemma ends_alts_mem:
  assumes "ws \<noteq> []" "e \<in> set (ends (alts ws) t)"
  shows "\<exists>w \<in> set ws. t = w @ e"
  using assms ends_Lit_mem by (fastforce simp: ends_alts)

lemma ends_Cls_mem: "e \<in> set (ends (Cls cs) t) \<Longrightarrow> \<exists>c \<in> set cs. t = c # e"
  by (cases t) (auto split: if_splits)

lemma ends_reWeek:
  assumes "e \<in> set (ends reWeek t)"
  shows "\<exists>w c. w \<in> set weekPrefixes \<and> c \<in> set weekdayChars \<and> t = w @ c # e"
proof -
  from assms obtain e1 where e1: "e1 \<in> set (ends (alts weekPrefixes) t)"
    and e: "e \<in> set (ends (Cls weekdayChars) e1)"
    by (auto simp: reWeek_def)
  have "weekPrefixes \<noteq> []" by (simp add: weekPrefixes_def)
  from ends_alts_mem [OF this e1] obtain w where "w \<in> set weekPrefixes" "t = w @ e1" by blast
  moreover from ends_Cls_mem [OF e] obtain c where "c \<in> set weekdayChars" "e1 = c # e" by blast
  ultimately show ?thesis by blast
qed

lemma rmatch_SomeD:
  "rmatch r s = Some m \<Longrightarrow> \<exists>t e es. ends r t = e # es \<and> m = take (length t - length e) t"
proof (induction s)
  case Nil
  then show ?case by (cases "ends r []") auto
next
  case (Cons c cs)
  show ?case
  proof (cases "ends r (c # cs)")
    case Nil
    with Cons show ?thesis by simp
  next
    case (Cons e es)
    with Cons.prems have "m = take (length (c # cs) - length e) (c # cs)" by simp
    with Cons show ?thesis by blast
  qed
qed

lemma rmatch_reWeek:
  assumes "rmatch reWeek s = Some m"
  shows "\<exists>w c. w \<in> set weekPrefixes \<and> c \<in> set weekdayChars \<and> m = w @ [c]"
proof -
  from rmatch_SomeD [OF assms] obtain t e es
    where t: "ends reWeek t = e # es" and m: "m = take (length t - length e) t" by blast
  from t have "e \<in> set (ends reWeek t)" by simp
  from ends_reWeek [OF this] obtain w c
    where wc: "w \<in> set weekPrefixes" "c \<in> set weekdayChars" and "t = w @ c # e" by blast
  with m have "m = w @ [c]" by simp
  with wc show ?thesis by blast
qed

lemma weekdayMap_total:
  "c \<in> set weekdayChars \<Longrightarrow> \<exists>t. map_of weekdayMap c = Some t \<and> 1 \<le> t \<and> t \<le> 7"
  by (auto simp: weekdayChars_def weekdayMap_def)

lemma reNextWeek_prefix:
  "w \<in> set weekPrefixes \<Longrightarrow>
     test reNextWeek w \<longleftrightarrow> w = [zh_xia, zh_zhou] \<or> w = [zh_xia, zh_xing, zh_qi]"
  by (auto simp: weekPrefixes_def reNextWeek_def)

lemma getDay_range: "0 \<le> getDay d \<and> getDay d \<le> 6"
  by (simp add: getDay_def)

text \<open>
  C8. Let no relative-day word occur and the day-of-month rule not apply, and let the
  weekday pattern match \<open>m\<close>: its last character names the target weekday \<open>t\<close>,
  the characters before it are the prefix. The table always has the character, with
  \<open>t\<close> from 1 (Monday) to 7 (Sunday); the current weekday \<open>cw\<close> is 1 to 7 as well.
  The result is the reading moved by \<open>t - cw\<close> days, plus 7 if that is negative, plus
  a further 7 whenever the prefix is \<open>xia zhou\<close> or \<open>xia xing qi\<close>, with the time of
  day kept. In particular on a Wednesday \<open>xia zhou san\<close> ("Wednesday of next week")
  resolves to exactly 7 days later, which by \<open>getDay_plusDays_7\<close> is a Wednesday.
\<close>

theorem weekday_rule:
  assumes valid: "validDate (clk 0)"
    and rel: "\<not> test reDaHouTian (removeSpaces u)" "\<not> test reHouTian (removeSpaces u)"
      "\<not> test reTomorrow (removeSpaces u)" "\<not> test reToday (removeSpaces u)"
    and day: "case rmatch reDay (removeSpaces u) of None \<Rightarrow> True
              | Some dm \<Rightarrow> parseInt (butlast dm) < 1 \<or> 31 < parseInt (butlast dm)"
    and wm: "rmatch reWeek (removeSpaces u) = Some m"
    and cw: "cw = (if getDay (clk 0) = 0 then 7 else getDay (clk 0))"
  shows "\<exists>t. map_of weekdayMap (last m) = Some t \<and> 1 \<le> t \<and> t \<le> 7 \<and> 1 \<le> cw \<and> cw \<le> 7
      \<and> fst (getScheduledDateFromText u clk) =
          Some (plusDays (nat ((if t - cw < 0 then t - cw + 7 else t - cw)
                  + (if butlast m = [zh_xia, zh_zhou] \<or> butlast m = [zh_xia, zh_xing, zh_qi]
                     then 7 else 0))) (clk 0))
      \<and> (getDay (clk 0) = 3 \<and> m = [zh_xia, zh_zhou, zh_san]
           \<longrightarrow> fst (getScheduledDateFromText u clk) = Some (plusDays 7 (clk 0)))"
proof -
  let ?now = "clk 0"
  from rmatch_reWeek [OF wm] obtain w c
    where w: "w \<in> set weekPrefixes" and c: "c \<in> set weekdayChars" and m: "m = w @ [c]"
    by blast
  from weekdayMap_total [OF c] obtain t
    where t: "map_of weekdayMap c = Some t" "1 \<le> t" "t \<le> 7" by blast
  have cwr: "1 \<le> cw" "cw \<le> 7" using getDay_range [of ?now] cw by (auto split: if_splits)
  define diff where "diff = (if t - cw < 0 then t - cw + 7 else t - cw)
      + (if w = [zh_xia, zh_zhou] \<or> w = [zh_xia, zh_xing, zh_qi] then 7 else 0)"
  have nonneg: "0 \<le> diff" using t cwr by (auto simp: diff_def)
  have nodayrule: "\<not> (rmatch reDay (removeSpaces u) \<noteq> None
      \<and> 1 \<le> (case rmatch reDay (removeSpaces u) of None \<Rightarrow> 0 | Some dm \<Rightarrow> parseInt (butlast dm))
      \<and> (case rmatch reDay (removeSpaces u) of None \<Rightarrow> 0 | Some dm \<Rightarrow> parseInt (butlast dm)) \<le> 31)"
    using day by (auto split: option.splits)
  have "fst (getScheduledDateFromText u clk) = Some (setDate ?now (date ?now + diff))"
    using rel nodayrule wm t cw [symmetric] reNextWeek_prefix [OF w]
    unfolding getScheduledDateFromText_def newDateNow_def Let_def
    by (auto simp add: m diff_def)
  also have "setDate ?now (date ?now + diff) = plusDays (nat diff) ?now"
    using setDate_plusDays [OF valid, of "nat diff"] nonneg by simp
  finally have res: "fst (getScheduledDateFromText u clk) = Some (plusDays (nat diff) ?now)" .
  have part: "fst (getScheduledDateFromText u clk) = Some (plusDays 7 ?now)"
    if "getDay ?now = 3" "m = [zh_xia, zh_zhou, zh_san]"
  proof -
    from that(2) m have "w = [zh_xia, zh_zhou]" "c = zh_san" by auto
    with t have "t = 3" by (simp add: weekdayMap_def)
    with that(1) cw \<open>w = [zh_xia, zh_zhou]\<close> have "diff = 7" by (simp add: diff_def)
    with res show ?thesis by simp
  qed
  from t cwr res part show ?thesis by (auto simp: m diff_def)
qed

text \<open>
  The theorem on Wednesday 20 March 2024: \<open>xia zhou san\<close> gives Wednesday the 27th,
  and \<open>zhou yi\<close> ("Monday") the 25th.
\<close>

theorem weekday_rule_witness:
  "fst (getScheduledDateFromText [zh_xia, zh_zhou, zh_san] (readings sampleNow []))
      = Some \<lparr>year = 2024, month = 2, date = 27, msOfDay = 37800000\<rparr>
   \<and> fst (getScheduledDateFromText [zh_zhou, zh_yi] (readings sampleNow []))
      = Some \<lparr>year = 2024, month = 2, date = 25, msOfDay = 37800000\<rparr>"
proof -
  have v: "validDate (readings sampleNow [] 0)" by (simp add: valid_sampleNow)
  have cw: "3 = (if getDay (readings sampleNow [] 0) = 0 then 7 else getDay (readings sampleNow [] 0))"
    by (simp add: getDay_sampleNow)
  have g: "getDay (readings sampleNow [] 0) = 3" by (simp add: getDay_sampleNow)
  have r: "readings sampleNow [] 0 = sampleNow" by simp
  note inst = weekday_rule [where clk = "readings sampleNow []" and cw = 3, OF v]
  have r1: "\<not> test reDaHouTian (removeSpaces [zh_xia, zh_zhou, zh_san])"
      "\<not> test reHouTian (removeSpaces [zh_xia, zh_zhou, zh_san])"
      "\<not> test reTomorrow (removeSpaces [zh_xia, zh_zhou, zh_san])"
      "\<not> test reToday (removeSpaces [zh_xia, zh_zhou, zh_san])"
    by (simp_all add: re_defs)
  have d1: "case rmatch reDay (removeSpaces [zh_xia, zh_zhou, zh_san]) of None \<Rightarrow> True
            | Some dm \<Rightarrow> parseInt (butlast dm) < 1 \<or> 31 < parseInt (butlast dm)"
    by (simp add: re_defs)
  have m1: "rmatch reWeek (removeSpaces [zh_xia, zh_zhou, zh_san]) = Some [zh_xia, zh_zhou, zh_san]"
    by (simp add: re_defs)
  have c1: "fst (getScheduledDateFromText [zh_xia, zh_zhou, zh_san] (readings sampleNow []))
      = Some (plusDays 7 (readings sampleNow [] 0))"
    using inst [OF r1 d1 m1 cw] g by blast
  have r2: "\<not> test reDaHouTian (removeSpaces [zh_zhou, zh_yi])"
      "\<not> test reHouTian (removeSpaces [zh_zhou, zh_yi])"
      "\<not> test reTomorrow (removeSpaces [zh_zhou, zh_yi])"
      "\<not> test reToday (removeSpaces [zh_zhou, zh_yi])"
    by (simp_all add: re_defs)
  have d2: "case rmatch reDay (removeSpaces [zh_zhou, zh_yi]) of None \<Rightarrow> True
            | Some dm \<Rightarrow> parseInt (butlast dm) < 1 \<or> 31 < parseInt (butlast dm)"
    by (simp add: re_defs)
  have m2: "rmatch reWeek (removeSpaces [zh_zhou, zh_yi]) = Some [zh_zhou, zh_yi]"
    by (simp add: re_defs)
  from inst [OF r2 d2 m2 cw] obtain t where t: "map_of weekdayMap (last [zh_zhou, zh_yi]) = Some t"
    and res: "fst (getScheduledDateFromText [zh_zhou, zh_yi] (readings sampleNow [])) =
          Some (plusDays (nat ((if t - 3 < 0 then t - 3 + 7 else t - 3)
                  + (if butlast [zh_zhou, zh_yi] = [zh_xia, zh_zhou]
                        \<or> butlast [zh_zhou, zh_yi] = [zh_xia, zh_xing, zh_qi]
                     then 7 else 0))) (readings sampleNow [] 0))"
    by blast
  from t have "t = 1" by (simp add: weekdayMap_def)
  with res have c2: "fst (getScheduledDateFromText [zh_zhou, zh_yi] (readings sampleNow []))
      = Some (plusDays 5 (readings sampleNow [] 0))"
    by simp
  show ?thesis
    unfolding c1 c2 r plusDays_sampleNow by simp
qed

section \<open>The anchor\<close>

text \<open>Every task of a batch carries the same \<^verbatim>\<open>createdAt\<close>.\<close>

lemma map_createdAt_enumerate:
  "map createdAt (map (\<lambda>(index, item). \<lparr>id' = f index, type' = ty, text' = item,
      tag = g item, completed = c, createdAt = ca\<rparr>) (enumerate n xs)) =
   replicate (length xs) ca"
  by (induction xs arbitrary: n) auto

lemma process_createdAt:
  "map createdAt (fst (processTranscriptToTasks tz u clk)) =
     replicate (length (fst (processTranscriptToTasks tz u clk)))
       (toISOString tz (case fst (getScheduledDateFromText u (\<lambda>n. clk (Suc n))) of
                          None \<Rightarrow> clk 0 | Some d \<Rightarrow> d))"
  by (simp add: processTranscriptToTasks_def newDateNow_def Let_def split_beta
      map_createdAt_enumerate del: map_map cong: option.case_cong)

lemma process_createdAt_single:
  assumes "map text' (fst (processTranscriptToTasks tz u clk)) = [x]"
    and "fst (getScheduledDateFromText u (\<lambda>n. clk (Suc n))) = r"
    and "toISOString tz (case r of None \<Rightarrow> clk 0 | Some d \<Rightarrow> d) = s"
  shows "map createdAt (fst (processTranscriptToTasks tz u clk)) = [s]"
proof -
  from assms(1) have "length (map text' (fst (processTranscriptToTasks tz u clk))) = 1"
    by simp
  then have "length (fst (processTranscriptToTasks tz u clk)) = 1" by simp
  with assms(2,3) show ?thesis by (simp add: process_createdAt)
qed

lemma strip_report: "stripDateWords [53, zh_hao, 20132, 25253, 21578] = [20132, 25253, 21578]"
  by (simp add: strip_defs)

lemma raw_report:
  "filterBoolean (map trim (split isSeparator [53, zh_hao, 20132, 25253, 21578])) =
     [[53, zh_hao, 20132, 25253, 21578]]"
  by (simp add: filterBoolean_def isSeparator_def trim_def is_ws_def Let_def)

text \<open>
  C3. The specification has the anchor combine the resolved date with the time of day of
  the derivation under every rule. The relative-day and the weekday rule do so (they move
  the reading with \<^verbatim>\<open>setDate\<close>, see C6 and C8). The day-of-month rule returns
  the date it built with \<^verbatim>\<open>new Date(y, m, d)\<close>, which is local midnight. At UTC+8
  on 20 March 2024, 10:30, "5 \<open>hao\<close>, hand in the report" is anchored at
  2024-04-04T16:00:00.000Z, the local midnight that begins 5 April, where the
  specification asks for 5 April 10:30 local time, 2024-04-05T02:30:00.000Z.
\<close>

theorem day_of_month_anchor_is_midnight:
  "fst (getScheduledDateFromText [53, zh_hao, 20132, 25253, 21578] (readings sampleNow []))
     = Some \<lparr>year = 2024, month = 3, date = 5, msOfDay = 0\<rparr>
   \<and> map createdAt (fst (processTranscriptToTasks 480 [53, zh_hao, 20132, 25253, 21578]
        (readings sampleNow []))) = [ascii ''2024-04-04T16:00:00.000Z'']
   \<and> toISOString 480 \<lparr>year = 2024, month = 3, date = 5, msOfDay = msOfDay sampleNow\<rparr>
     = ascii ''2024-04-05T02:30:00.000Z''"
proof -
  have g: "fst (getScheduledDateFromText [53, zh_hao, 20132, 25253, 21578] (readings sampleNow []))
     = Some \<lparr>year = 2024, month = 3, date = 5, msOfDay = 0\<rparr>"
    by (simp add: getScheduledDateFromText_def Let_def newDateNow_def re_defs newDateYMD_def
        dateLess_def cal_defs sampleNow_def)
  have g': "fst (getScheduledDateFromText [53, zh_hao, 20132, 25253, 21578]
        (\<lambda>n. readings sampleNow [] (Suc n)))
     = Some \<lparr>year = 2024, month = 3, date = 5, msOfDay = 0\<rparr>"
    using g fst_getScheduledDateFromText_clock
      [of "\<lambda>n. readings sampleNow [] (Suc n)" "readings sampleNow []"]
    by simp
  have x: "map text' (fst (processTranscriptToTasks 480 [53, zh_hao, 20132, 25253, 21578]
        (readings sampleNow []))) = [[20132, 25253, 21578]]"
    by (simp only: process_texts raw_report) (simp add: strip_report)
  have iso: "toISOString 480 (case Some \<lparr>year = 2024, month = 3, date = 5, msOfDay = 0\<rparr> of
        None \<Rightarrow> readings sampleNow [] 0 | Some d \<Rightarrow> d) = ascii ''2024-04-04T16:00:00.000Z''"
    by (simp add: iso_defs cal_defs)
  have want: "toISOString 480 \<lparr>year = 2024, month = 3, date = 5, msOfDay = msOfDay sampleNow\<rparr>
     = ascii ''2024-04-05T02:30:00.000Z''"
    by (simp add: iso_defs cal_defs sampleNow_def)
  from g process_createdAt_single [OF x g' iso] want show ?thesis by (intro conjI)
qed

section \<open>The clock\<close>

lemma process_clock:
  assumes "clk 0 = clk' 0" "clk (Suc 0) = clk' (Suc 0)"
  shows "fst (processTranscriptToTasks tz u clk) = fst (processTranscriptToTasks tz u clk')"
proof -
  have "fst (getScheduledDateFromText u (\<lambda>n. clk (Suc n))) =
        fst (getScheduledDateFromText u (\<lambda>n. clk' (Suc n)))"
    using assms(2) by (intro fst_getScheduledDateFromText_clock) simp
  with assms(1) show ?thesis
    by (simp add: processTranscriptToTasks_def newDateNow_def Let_def split_beta
        cong: option.case_cong)
qed

lemma snd_process:
  "snd (processTranscriptToTasks tz u clk) = (\<lambda>n. clk (Suc (Suc n)))"
  by (simp add: processTranscriptToTasks_def newDateNow_def Let_def split_beta
      snd_getScheduledDateFromText)

lemma strip_tomorrow_buy: "stripDateWords [zh_ming, zh_tian, 20080, 33756] = [20080, 33756]"
  by (simp add: strip_defs)

lemma raw_tomorrow_buy_one:
  "filterBoolean (map trim (split isSeparator [zh_ming, zh_tian, 20080, 33756])) =
     [[zh_ming, zh_tian, 20080, 33756]]"
  by (simp add: filterBoolean_def isSeparator_def trim_def is_ws_def Let_def)

lemma raw_buy: "filterBoolean (map trim (split isSeparator [20080, 33756])) = [[20080, 33756]]"
  by (simp add: filterBoolean_def isSeparator_def trim_def is_ws_def Let_def)

lemma texts_tomorrow_buy:
  "map text' (fst (processTranscriptToTasks tz [zh_ming, zh_tian, 20080, 33756] clk)) =
     [[20080, 33756]]"
  by (simp only: process_texts raw_tomorrow_buy_one) (simp add: strip_tomorrow_buy)

lemma texts_buy:
  "map text' (fst (processTranscriptToTasks tz [20080, 33756] clk)) = [[20080, 33756]]"
  by (simp only: process_texts raw_buy) (simp add: strip_buy)

lemma resolve_tomorrow:
  "fst (getScheduledDateFromText [zh_ming, zh_tian, 20080, 33756] clk) =
     Some (setDate (clk 0) (date (clk 0) + 1))"
  by (simp add: getScheduledDateFromText_def Let_def newDateNow_def re_defs)

lemma resolve_buy: "fst (getScheduledDateFromText [20080, 33756] clk) = None"
  by (simp add: getScheduledDateFromText_def Let_def newDateNow_def re_defs)

text \<open>
  C1, as the specification states it: the result is determined by the utterance and one
  injected instant, with no other clock read. The code has no such parameter. It reads
  the clock in \<^verbatim>\<open>processTranscriptToTasks\<close> and again in
  \<^verbatim>\<open>getScheduledDateFromText\<close>, and neither reading alone determines the result.
  With the same first reading and second readings one millisecond apart, "tomorrow buy
  vegetables" gets different anchors; with the same second reading and first readings
  one millisecond apart, "buy vegetables" does.
\<close>

theorem second_clock_read_changes_result:
  "readings sampleNow [] 0 =
     readings sampleNow
       [sampleNow, \<lparr>year = 2024, month = 2, date = 20, msOfDay = 37800001\<rparr>] 0
   \<and> map createdAt (fst (processTranscriptToTasks 480 [zh_ming, zh_tian, 20080, 33756]
        (readings sampleNow []))) = [ascii ''2024-03-21T02:30:00.000Z'']
   \<and> map createdAt (fst (processTranscriptToTasks 480 [zh_ming, zh_tian, 20080, 33756]
        (readings sampleNow
           [sampleNow, \<lparr>year = 2024, month = 2, date = 20, msOfDay = 37800001\<rparr>])))
       = [ascii ''2024-03-21T02:30:00.001Z'']
   \<and> readings sampleNow [] 1 =
     readings sampleNow [\<lparr>year = 2024, month = 2, date = 20, msOfDay = 37800001\<rparr>] 1
   \<and> map createdAt (fst (processTranscriptToTasks 480 [20080, 33756] (readings sampleNow [])))
       = [ascii ''2024-03-20T02:30:00.000Z'']
   \<and> map createdAt (fst (processTranscriptToTasks 480 [20080, 33756]
        (readings sampleNow [\<lparr>year = 2024, month = 2, date = 20, msOfDay = 37800001\<rparr>])))
       = [ascii ''2024-03-20T02:30:00.001Z'']"
proof -
  let ?later = "\<lparr>year = 2024, month = 2, date = 20, msOfDay = 37800001\<rparr>"
  have a: "map createdAt (fst (processTranscriptToTasks 480 [zh_ming, zh_tian, 20080, 33756]
        (readings sampleNow []))) = [ascii ''2024-03-21T02:30:00.000Z'']"
    by (rule process_createdAt_single [OF texts_tomorrow_buy resolve_tomorrow])
       (simp add: sampleNow_def setDate_def iso_defs cal_defs)
  have b: "map createdAt (fst (processTranscriptToTasks 480 [zh_ming, zh_tian, 20080, 33756]
        (readings sampleNow [sampleNow, ?later]))) = [ascii ''2024-03-21T02:30:00.001Z'']"
    by (rule process_createdAt_single [OF texts_tomorrow_buy resolve_tomorrow])
       (simp add: sampleNow_def setDate_def iso_defs cal_defs)
  have c: "map createdAt (fst (processTranscriptToTasks 480 [20080, 33756]
        (readings sampleNow []))) = [ascii ''2024-03-20T02:30:00.000Z'']"
    by (rule process_createdAt_single [OF texts_buy resolve_buy])
       (simp add: sampleNow_def iso_defs cal_defs)
  have d: "map createdAt (fst (processTranscriptToTasks 480 [20080, 33756]
        (readings sampleNow [?later]))) = [ascii ''2024-03-20T02:30:00.001Z'']"
    by (rule process_createdAt_single [OF texts_buy resolve_buy])
       (simp add: sampleNow_def iso_defs cal_defs)
  have e: "readings sampleNow [] 0 = readings sampleNow [sampleNow, ?later] 0" by simp
  have f: "readings sampleNow [] 1 = readings sampleNow [?later] 1" by simp
  from e a b f c d show ?thesis by (intro conjI)
qed

text \<open>
  C1, amended. In a fixed time zone the tasks are determined by the utterance and the two
  clock readings the derivation takes, and it takes exactly two: two clocks that agree on
  their first two readings give the same tasks. So when both readings are the same
  instant, the tasks are a function of the utterance and that instant.
\<close>

theorem derivation_determined_by_two_clock_reads:
  "(clk 0 = clk' 0 \<and> clk 1 = clk' 1
      \<longrightarrow> fst (processTranscriptToTasks tz u clk) = fst (processTranscriptToTasks tz u clk'))
   \<and> snd (processTranscriptToTasks tz u clk) = (\<lambda>n. clk (n + 2))"
  using process_clock [of clk clk' tz u] by (simp add: snd_process)

text \<open>Two clocks that agree on two readings and differ from the third on.\<close>

theorem derivation_determined_by_two_clock_reads_witness:
  "fst (processTranscriptToTasks 480 [zh_ming, zh_tian, 20080, 33756]
      (readings sampleNow
         [sampleNow, \<lparr>year = 2024, month = 2, date = 20, msOfDay = 37800001\<rparr>]))
   = fst (processTranscriptToTasks 480 [zh_ming, zh_tian, 20080, 33756]
      (readings \<lparr>year = 2024, month = 2, date = 20, msOfDay = 37800001\<rparr>
         [sampleNow, \<lparr>year = 2024, month = 2, date = 20, msOfDay = 37800001\<rparr>]))"
proof -
  let ?later = "\<lparr>year = 2024, month = 2, date = 20, msOfDay = 37800001\<rparr>"
  have h: "readings sampleNow [sampleNow, ?later] 0 = readings ?later [sampleNow, ?later] 0
      \<and> readings sampleNow [sampleNow, ?later] 1 = readings ?later [sampleNow, ?later] 1"
    by simp
  from derivation_determined_by_two_clock_reads
         [where clk = "readings sampleNow [sampleNow, ?later]"
            and clk' = "readings ?later [sampleNow, ?later]"] h
  show ?thesis by blast
qed

end
